theory Spec2Isabelle
  imports Complex_Main
begin

section \<open>Python values, exceptions and the object store\<close>

text \<open>
  The environment of \<^verbatim>\<open>MG_two_storages_env.py\<close> is a Python object whose last
  observation is a nested Python list that the methods update in place. Lists are
  therefore objects in an explicit store: a store is the list of the list objects
  allocated so far, an address is a position in it, and allocation appends. Addresses
  are not observable by the program; only their distinctness matters.

  Floating-point numbers are idealised as real numbers throughout.
\<close>

text \<open>
  The exceptions. The first seven are raised by the Python code or its library calls
  (\<open>SystemError\<close> stands for a reference to an address outside the store, which no
  Python state contains). The last three are the names the specification uses; no
  statement of the source raises them.
\<close>

datatype error =
    AttributeError | IndexError | TypeError | UnboundLocalError | ValueError
  | RecursionError | SystemError
  | InvalidActionError | ConfigurationError | OutOfRangeError

text \<open>Arguments a caller may pass for \<open>mode\<close> and \<open>action\<close>.\<close>

datatype pyarg = PyInt int | PyBool bool | PyFloat real | PyNone | PyStr string

text \<open>Python's \<^verbatim>\<open>x == k\<close> for an integer literal \<open>k\<close>: \<^verbatim>\<open>True == 1\<close>,
  \<^verbatim>\<open>False == 0\<close> and \<^verbatim>\<open>0.0 == 0\<close> hold.\<close>

fun py_eq_int :: "pyarg \<Rightarrow> int \<Rightarrow> bool" where
  "py_eq_int (PyInt i) k = (i = k)"
| "py_eq_int (PyBool b) k = ((if b then 1 else 0) = k)"
| "py_eq_int (PyFloat x) k = (x = real_of_int k)"
| "py_eq_int PyNone k = False"
| "py_eq_int (PyStr s) k = False"

type_synonym addr = nat

datatype pyval = Num real | Ref addr

type_synonym heap = "pyval list list"

definition new_list :: "pyval list \<Rightarrow> heap \<Rightarrow> pyval \<times> heap" where
  "new_list xs h = (Ref (length h), h @ [xs])"

text \<open>\<^verbatim>\<open>v[i]\<close> and \<^verbatim>\<open>v[i] = x\<close> for a literal index \<open>i \<ge> 0\<close>.\<close>

fun getitem :: "heap \<Rightarrow> pyval \<Rightarrow> nat \<Rightarrow> error + pyval" where
  "getitem h (Num x) i = Inl TypeError"
| "getitem h (Ref a) i =
     (if length h \<le> a then Inl SystemError
      else if i < length (h ! a) then Inr (h ! a ! i)
      else Inl IndexError)"

fun setitem :: "heap \<Rightarrow> pyval \<Rightarrow> nat \<Rightarrow> pyval \<Rightarrow> error + heap" where
  "setitem h (Num x) i v = Inl TypeError"
| "setitem h (Ref a) i v =
     (if length h \<le> a then Inl SystemError
      else if i < length (h ! a) then Inr (h[a := (h ! a)[i := v]])
      else Inl IndexError)"

text \<open>A list where a number is expected: \<^verbatim>\<open>[..] * 15.\<close> raises TypeError.\<close>

fun as_float :: "pyval \<Rightarrow> error + real" where
  "as_float (Num x) = Inr x"
| "as_float (Ref a) = Inl TypeError"

text \<open>The value a reference denotes, read to a bounded depth.\<close>

datatype pytree = Leaf real | Node "pytree list"

fun tree_of :: "nat \<Rightarrow> heap \<Rightarrow> pyval \<Rightarrow> pytree option" where
  "tree_of d h (Num x) = Some (Leaf x)"
| "tree_of 0 h (Ref a) = None"
| "tree_of (Suc d) h (Ref a) =
     (if a < length h then map_option Node (those (map (tree_of d h) (h ! a))) else None)"

fun leaves :: "pytree \<Rightarrow> real list" where
  "leaves (Leaf x) = [x]"
| "leaves (Node ts) = concat (map leaves ts)"

section \<open>Time series\<close>

text \<open>
  The series are numpy arrays that the environment only reads. \<^verbatim>\<open>a[i]\<close> counts a
  negative index from the end and raises IndexError out of range; a slice clips its
  bounds and never raises.
\<close>

definition np_getitem :: "real list \<Rightarrow> int \<Rightarrow> error + real" where
  "np_getitem xs i =
     (if 0 \<le> i \<and> i < int (length xs) then Inr (xs ! nat i)
      else if i < 0 \<and> - int (length xs) \<le> i then Inr (xs ! nat (int (length xs) + i))
      else Inl IndexError)"

definition clip_index :: "int \<Rightarrow> int \<Rightarrow> int" where
  "clip_index n i = (if i < 0 then max 0 (n + i) else min n i)"

definition py_slice :: "real list \<Rightarrow> int \<Rightarrow> int \<Rightarrow> real list" where
  "py_slice xs i j =
     (let n = int (length xs); a = clip_index n i; b = clip_index n j
      in take (nat (b - a)) (drop (nat a) xs))"

definition py_min :: "real list \<Rightarrow> error + real" where
  "py_min xs = (case xs of [] \<Rightarrow> Inl ValueError | x # ys \<Rightarrow> Inr (fold min ys x))"

definition py_max :: "real list \<Rightarrow> error + real" where
  "py_max xs = (case xs of [] \<Rightarrow> Inl ValueError | x # ys \<Rightarrow> Inr (fold max ys x))"

section \<open>The environment object\<close>

text \<open>
  The attributes \<open>reset\<close> assigns; it assigns all of them, and nothing else does, so
  they are set together or not at all.
\<close>

record episode =
  counter :: int
  hydrogen_storage :: real
  production_norm :: "real list"
  production :: "real list"
  consumption_norm :: "real list"
  consumption :: "real list"

text \<open>
  The attributes of \<open>MyEnv\<close>. An attribute that a path of the constructor leaves
  unassigned is \<open>None\<close>. The random number generator is stored and never read; it is
  left out.
\<close>

record env =
  dist_equinox :: int
  pred :: int
  nActions :: int
  lastPonctualObservation :: "pyval option"
  inputDimensions :: "nat list list option"
  consumption_train_norm :: "real list"
  consumption_valid_norm :: "real list"
  consumption_test_norm :: "real list"
  consumption_train :: "real list"
  consumption_valid :: "real list"
  consumption_test :: "real list"
  min_consumption :: real
  max_consumption :: real
  production_train_norm :: "real list"
  production_valid_norm :: "real list"
  production_test_norm :: "real list"
  production_train :: "real list"
  production_valid :: "real list"
  production_test :: "real list"
  min_production :: real
  max_production :: real
  episode :: "episode option"

text \<open>
  The four physical parameters are assigned once, at the end of the constructor, to
  constants, and no method assigns them again.
\<close>

definition inc_sizing :: real where
  "inc_sizing = 1"

definition battery_size :: real where
  "battery_size = 15 * inc_sizing"

definition battery_eta :: real where
  "battery_eta = 9 / 10"

definition hydrogen_max_power :: real where
  "hydrogen_max_power = 11 / 10 * inc_sizing"

definition hydrogen_eta :: real where
  "hydrogen_eta = 65 / 100"

subsection \<open>Construction\<close>

text \<open>
  The list displays of the two \<^verbatim>\<open>if/elif\<close> chains on the flags (in \<open>__init__\<close>
  with first element \<open>0.\<close>, in \<open>reset\<close> with \<open>1.\<close>). The chain has no \<open>else\<close>:
  for any other pair of flags nothing is assigned.
\<close>

definition observation_display :: "int \<Rightarrow> int \<Rightarrow> real \<Rightarrow> heap \<Rightarrow> (pyval \<times> heap) option" where
  "observation_display d p x h =
     (if d = 1 \<and> p = 1 then
        (let (r1, h1) = new_list [Num 0, Num 0] h;
             (r2, h2) = new_list [Num 0, Num 0] h1
         in Some (new_list [Num x, r1, Num 0, r2] h2))
      else if d = 1 \<and> p = 0 then
        (let (r1, h1) = new_list [Num 0, Num 0] h
         in Some (new_list [Num x, r1, Num 0] h1))
      else if d = 0 \<and> p = 0 then
        (let (r1, h1) = new_list [Num 0, Num 0] h
         in Some (new_list [Num x, r1] h1))
      else None)"

definition dimensions_display :: "int \<Rightarrow> int \<Rightarrow> nat list list option" where
  "dimensions_display d p =
     (if d = 1 \<and> p = 1 then Some [[1], [12, 2], [1], [1, 2]]
      else if d = 1 \<and> p = 0 then Some [[1], [12, 2], [1]]
      else if d = 0 \<and> p = 0 then Some [[1], [12, 2]]
      else None)"

text \<open>
  \<open>__init__\<close>. Lines 34 and 35 assign both flags the constant 0 (the locals \<open>d\<close> and
  \<open>p\<close> below); the chain on the flags follows. The four arrays are what
  \<^verbatim>\<open>np.load\<close> returned for the consumption and production files (train, test).
  \<open>min\<close> of an empty array raises ValueError, and the constructor with it.
\<close>

definition MyEnv_init ::
  "real list \<Rightarrow> real list \<Rightarrow> real list \<Rightarrow> real list \<Rightarrow> heap \<Rightarrow> (error + env) \<times> heap" where
  "MyEnv_init cons_train_file cons_test_file prod_train_file prod_test_file h =
     (let d = (0::int);
          p = (0::int);
          (obs, h1) = (case observation_display d p 0 h of
                         None \<Rightarrow> (None, h)
                       | Some (r, h') \<Rightarrow> (Some r, h'));
          ctn = py_slice cons_train_file 0 (1 * 365 * 24);
          cvn = py_slice cons_train_file (365 * 24) (2 * 365 * 24);
          cen = py_slice cons_test_file 0 (1 * 365 * 24);
          ct = map (\<lambda>x. x * (21 / 10)) ctn;
          cv = map (\<lambda>x. x * (21 / 10)) cvn;
          ce = map (\<lambda>x. x * (21 / 10)) cen
      in case py_min ct of Inl err \<Rightarrow> (Inl err, h1) | Inr cmin \<Rightarrow>
         case py_max ct of Inl err \<Rightarrow> (Inl err, h1) | Inr cmax \<Rightarrow>
         (let ptn = py_slice prod_train_file 0 (1 * 365 * 24);
              pvn = py_slice prod_train_file (365 * 24) (2 * 365 * 24);
              pen = py_slice prod_test_file 0 (1 * 365 * 24);
              pt = map (\<lambda>x. x * 12000 / 1000 * inc_sizing) ptn;
              pv = map (\<lambda>x. x * 12000 / 1000 * inc_sizing) pvn;
              pe = map (\<lambda>x. x * 12000 / 1000 * inc_sizing) pen
          in case py_min pt of Inl err \<Rightarrow> (Inl err, h1) | Inr pmin \<Rightarrow>
             case py_max pt of Inl err \<Rightarrow> (Inl err, h1) | Inr pmax \<Rightarrow>
             (Inr \<lparr> dist_equinox = d, pred = p, nActions = 3,
                    lastPonctualObservation = obs,
                    inputDimensions = dimensions_display d p,
                    consumption_train_norm = ctn, consumption_valid_norm = cvn,
                    consumption_test_norm = cen,
                    consumption_train = ct, consumption_valid = cv, consumption_test = ce,
                    min_consumption = cmin, max_consumption = cmax,
                    production_train_norm = ptn, production_valid_norm = pvn,
                    production_test_norm = pen,
                    production_train = pt, production_valid = pv, production_test = pe,
                    min_production = pmin, max_production = pmax,
                    episode = None \<rparr>, h1)))"

subsection \<open>reset\<close>

text \<open>\<^verbatim>\<open>[[0. ,0.] for i in range(n)]\<close>: the rows, then the list of them.\<close>

fun zero_rows :: "nat \<Rightarrow> heap \<Rightarrow> pyval list \<times> heap" where
  "zero_rows 0 h = ([], h)"
| "zero_rows (Suc n) h =
     (let (r, h1) = new_list [Num 0, Num 0] h;
          (rs, h2) = zero_rows n h1
      in (r # rs, h2))"

definition zero_history :: "heap \<Rightarrow> pyval \<times> heap" where
  "zero_history h = (let (rs, h1) = zero_rows 12 h in new_list rs h1)"

definition reset_return :: "int \<Rightarrow> int \<Rightarrow> heap \<Rightarrow> pyval \<times> heap" where
  "reset_return d p h =
     (if d = 1 \<and> p = 1 then
        (let (hist, h1) = zero_history h;
             (r2, h2) = new_list [Num 0, Num 0] h1
         in new_list [Num 0, hist, Num 0, r2] h2)
      else if d = 1 \<and> p = 0 then
        (let (hist, h1) = zero_history h
         in new_list [Num 0, hist, Num 0] h1)
      else
        (let (hist, h1) = zero_history h
         in new_list [Num 0, hist] h1))"

text \<open>
  Lines 108 to 125: the cursor, the long-term level and the four series of the episode,
  by the mode.
\<close>

definition bind_series :: "pyarg \<Rightarrow> env \<Rightarrow> episode" where
  "bind_series mode e =
     (if py_eq_int mode (- 1) then
        \<lparr> counter = 1, hydrogen_storage = 0,
          production_norm = production_train_norm e,
          production = production_train e,
          consumption_norm = consumption_train_norm e,
          consumption = consumption_train e \<rparr>
      else if py_eq_int mode 0 then
        \<lparr> counter = 1, hydrogen_storage = 0,
          production_norm = production_valid_norm e,
          production = production_valid e,
          consumption_norm = consumption_valid_norm e,
          consumption = consumption_valid e \<rparr>
      else
        \<lparr> counter = 1, hydrogen_storage = 0,
          production_norm = production_test_norm e,
          production = production_test e,
          consumption_norm = consumption_test_norm e,
          consumption = consumption_test e \<rparr>)"

definition reset :: "pyarg \<Rightarrow> env \<times> heap \<Rightarrow> pyval \<times> env \<times> heap" where
  "reset mode s =
     (let (e, h) = s;
          (e1, h1) = (case observation_display (dist_equinox e) (pred e) 1 h of
                        None \<Rightarrow> (e, h)
                      | Some (r, h') \<Rightarrow> (e\<lparr>lastPonctualObservation := Some r\<rparr>, h'));
          e2 = e1\<lparr>episode := Some (bind_series mode e1)\<rparr>;
          (ret, h2) = reset_return (dist_equinox e2) (pred e2) h1
      in (ret, e2, h2))"

subsection \<open>act\<close>

text \<open>Line 155: the demand net of production, read one position behind the cursor.\<close>

definition true_demand :: "episode \<Rightarrow> error + real" where
  "true_demand ep =
     (case np_getitem (consumption ep) (counter ep - 1) of Inl err \<Rightarrow> Inl err | Inr c \<Rightarrow>
      case np_getitem (production ep) (counter ep - 1) of Inl err \<Rightarrow> Inl err | Inr p \<Rightarrow>
      Inr (c - p))"

text \<open>
  Lines 157 to 168: three independent \<^verbatim>\<open>if\<close> statements, each binding the two locals
  \<open>true_energy_avail_from_hydrogen\<close> and \<open>diff_hydrogen\<close>. \<open>None\<close>: both are
  unbound.
\<close>

definition hydrogen_action :: "pyarg \<Rightarrow> (real \<times> real) option" where
  "hydrogen_action action =
     (let v0 = None;
          v1 = (if py_eq_int action 0
                then Some (- hydrogen_max_power * hydrogen_eta, - hydrogen_max_power) else v0);
          v2 = (if py_eq_int action 1 then Some (0, 0) else v1);
          v3 = (if py_eq_int action 2
                then Some (hydrogen_max_power / hydrogen_eta, hydrogen_max_power) else v2)
      in v3)"

text \<open>Reading \<^verbatim>\<open>self._lastPonctualObservation[0]\<close> as a number.\<close>

definition read_level :: "pyval option \<Rightarrow> heap \<Rightarrow> error + real" where
  "read_level obs h =
     (case obs of None \<Rightarrow> Inl AttributeError | Some v \<Rightarrow>
      case getitem h v 0 of Inl err \<Rightarrow> Inl err | Inr x \<Rightarrow> as_float x)"

definition write_level :: "pyval option \<Rightarrow> real \<Rightarrow> heap \<Rightarrow> error + heap" where
  "write_level obs x h =
     (case obs of None \<Rightarrow> Inl AttributeError | Some v \<Rightarrow> setitem h v 0 (Num x))"

text \<open>
  Lines 175 to 186: the battery covers the need or absorbs the surplus. The arguments
  are the observation attribute, \<open>Energy_needed_from_battery\<close> and the reward so far.
\<close>

definition battery :: "pyval option \<Rightarrow> real \<Rightarrow> real \<Rightarrow> heap \<Rightarrow> (error + real) \<times> heap" where
  "battery obs need reward h =
     (if need > 0 then
        (case read_level obs h of Inl err \<Rightarrow> (Inl err, h) | Inr l \<Rightarrow>
         if l * battery_size > need then
           (case write_level obs (l - need / battery_size) h of
              Inl err \<Rightarrow> (Inl err, h)
            | Inr h' \<Rightarrow> (Inr reward, h'))
         else
           (case write_level obs 0 h of
              Inl err \<Rightarrow> (Inl err, h)
            | Inr h' \<Rightarrow> (Inr (reward - (need - l * battery_size) * 2), h')))
      else if need < 0 then
        (case read_level obs h of Inl err \<Rightarrow> (Inl err, h) | Inr l \<Rightarrow>
         case write_level obs (min 1 (l - need / battery_size * battery_eta)) h of
           Inl err \<Rightarrow> (Inl err, h)
         | Inr h' \<Rightarrow> (Inr reward, h'))
      else (Inr reward, h))"

text \<open>
  An assignment \<^verbatim>\<open>self._lastPonctualObservation[i][j] = x\<close>, its right-hand side
  already evaluated.
\<close>

definition write_cell :: "pyval option \<Rightarrow> nat \<Rightarrow> nat \<Rightarrow> real \<Rightarrow> heap \<Rightarrow> error + heap" where
  "write_cell obs i j x h =
     (case obs of None \<Rightarrow> Inl AttributeError | Some v \<Rightarrow>
      case getitem h v i of Inl err \<Rightarrow> Inl err | Inr row \<Rightarrow> setitem h row j (Num x))"

text \<open>Lines 198 and 199.\<close>

definition assemble_current :: "pyval option \<Rightarrow> episode \<Rightarrow> heap \<Rightarrow> error option \<times> heap" where
  "assemble_current obs ep h =
     (case np_getitem (consumption_norm ep) (counter ep) of Inl err \<Rightarrow> (Some err, h) | Inr c \<Rightarrow>
      case write_cell obs 1 0 c h of Inl err \<Rightarrow> (Some err, h) | Inr h1 \<Rightarrow>
      case np_getitem (production_norm ep) (counter ep) of Inl err \<Rightarrow> (Some err, h1) | Inr p \<Rightarrow>
      case write_cell obs 1 1 p h1 of Inl err \<Rightarrow> (Some err, h1) | Inr h2 \<Rightarrow>
      (None, h2))"

text \<open>
  Lines 200 to 207, with the local index \<open>i\<close>. The division \<^verbatim>\<open>self.counter/24\<close> is
  Python 3's true division.
\<close>

definition assemble_optional :: "env \<Rightarrow> episode \<Rightarrow> heap \<Rightarrow> error option \<times> heap" where
  "assemble_optional e ep h =
     (let obs = lastPonctualObservation e;
          i = (1::nat);
          (i1, r1) = (if dist_equinox e = 1 then
                        (let i' = i + 1
                         in case obs of None \<Rightarrow> (i', (Some AttributeError, h)) | Some v \<Rightarrow>
                            case setitem h v i'
                                   (Num (\<bar>real_of_int (counter ep) / 24 - 365 / 2\<bar> / (365 / 2))) of
                              Inl err \<Rightarrow> (i', (Some err, h))
                            | Inr h1 \<Rightarrow> (i', (None, h1)))
                      else (i, (None, h)))
      in case r1 of (Some err, h1) \<Rightarrow> (Some err, h1) | (None, h1) \<Rightarrow>
         if pred e = 1 then
           (let i2 = i1 + 1
            in case write_cell obs i2 0
                      (sum_list (py_slice (production_norm ep) (counter ep) (counter ep + 24)) / 24)
                      h1 of
                 Inl err \<Rightarrow> (Some err, h1) | Inr h2 \<Rightarrow>
               case write_cell obs i2 1
                      (sum_list (py_slice (production_norm ep) (counter ep) (counter ep + 48)) / 48)
                      h2 of
                 Inl err \<Rightarrow> (Some err, h2) | Inr h3 \<Rightarrow>
               (None, h3))
         else (None, h1))"

text \<open>
  \<open>act\<close>. An exception leaves the object and the store as they are where it is
  raised: the result carries them in every case.
\<close>

definition act :: "pyarg \<Rightarrow> env \<times> heap \<Rightarrow> (error + real) \<times> env \<times> heap" where
  "act action s =
     (let (e, h) = s
      in case episode e of None \<Rightarrow> (Inl AttributeError, e, h) | Some ep \<Rightarrow>
         case true_demand ep of Inl err \<Rightarrow> (Inl err, e, h) | Inr td \<Rightarrow>
         case hydrogen_action action of None \<Rightarrow> (Inl UnboundLocalError, e, h)
         | Some (avail, diff) \<Rightarrow>
         (let reward = diff * (1 / 10);
              ep1 = ep\<lparr>hydrogen_storage := hydrogen_storage ep + diff\<rparr>;
              e1 = e\<lparr>episode := Some ep1\<rparr>;
              need = td + avail
          in case battery (lastPonctualObservation e1) need reward h of
               (Inl err, h1) \<Rightarrow> (Inl err, e1, h1)
             | (Inr reward', h1) \<Rightarrow>
               case assemble_current (lastPonctualObservation e1) ep1 h1 of
                 (Some err, h2) \<Rightarrow> (Inl err, e1, h2)
               | (None, h2) \<Rightarrow>
                 case assemble_optional e1 ep1 h2 of
                   (Some err, h3) \<Rightarrow> (Inl err, e1, h3)
                 | (None, h3) \<Rightarrow>
                   (Inr reward', e1\<lparr>episode := Some (ep1\<lparr>counter := counter ep1 + 1\<rparr>)\<rparr>, h3)))"

subsection \<open>Accessors\<close>

definition get_inputDimensions :: "env \<Rightarrow> error + nat list list" where
  "get_inputDimensions e =
     (case inputDimensions e of None \<Rightarrow> Inl AttributeError | Some ds \<Rightarrow> Inr ds)"

definition get_nActions :: "env \<Rightarrow> int" where
  "get_nActions e = nActions e"

subsection \<open>observe\<close>

text \<open>
  \<^verbatim>\<open>copy.deepcopy\<close> of the standard library, on numbers and lists: a number is
  returned as it is; for a list a new empty list is allocated and recorded in the memo,
  then the copies of the elements are appended to it. The first argument bounds the
  depth of the recursion, as the interpreter's recursion limit does.
\<close>

type_synonym memo = "(addr \<times> addr) list"

definition append_item :: "heap \<Rightarrow> addr \<Rightarrow> pyval \<Rightarrow> heap" where
  "append_item h y v = h[y := h ! y @ [v]]"

fun deepcopy :: "nat \<Rightarrow> pyval \<Rightarrow> heap \<Rightarrow> memo \<Rightarrow> (error + pyval) \<times> heap \<times> memo"
and deepcopy_items :: "nat \<Rightarrow> pyval list \<Rightarrow> addr \<Rightarrow> heap \<Rightarrow> memo \<Rightarrow> error option \<times> heap \<times> memo"
where
  "deepcopy 0 v h m = (Inl RecursionError, h, m)"
| "deepcopy (Suc n) (Num x) h m = (Inr (Num x), h, m)"
| "deepcopy (Suc n) (Ref a) h m =
     (case map_of m a of
        Some y \<Rightarrow> (Inr (Ref y), h, m)
      | None \<Rightarrow>
          if length h \<le> a then (Inl SystemError, h, m)
          else (let y = length h
                in case deepcopy_items n (h ! a) y (h @ [[]]) ((a, y) # m) of
                     (Some err, h', m') \<Rightarrow> (Inl err, h', m')
                   | (None, h', m') \<Rightarrow> (Inr (Ref y), h', m')))"
| "deepcopy_items n [] y h m = (None, h, m)"
| "deepcopy_items n (x # xs) y h m =
     (case deepcopy n x h m of
        (Inl err, h', m') \<Rightarrow> (Some err, h', m')
      | (Inr x', h', m') \<Rightarrow> deepcopy_items n xs y (append_item h' y x') m')"

text \<open>\<open>observe\<close>, with the recursion limit as a parameter.\<close>

definition observe :: "nat \<Rightarrow> env \<times> heap \<Rightarrow> (error + pyval) \<times> heap" where
  "observe limit s =
     (let (e, h) = s
      in case lastPonctualObservation e of
           None \<Rightarrow> (Inl AttributeError, h)
         | Some v \<Rightarrow> (case deepcopy limit v h [] of (r, h', m) \<Rightarrow> (r, h')))"

section \<open>The vocabulary of the specification\<close>

text \<open>
  The specification's names for the runtime state: the short-term buffer level is the
  first element of the observation list, the long-term level is \<open>hydrogen_storage\<close> and
  the cursor is \<open>counter\<close>.
\<close>

definition shortTermLevel :: "env \<times> heap \<Rightarrow> real option" where
  "shortTermLevel s =
     (case read_level (lastPonctualObservation (fst s)) (snd s) of
        Inl err \<Rightarrow> None | Inr l \<Rightarrow> Some l)"

definition longTermLevel :: "env \<times> heap \<Rightarrow> real option" where
  "longTermLevel s = map_option hydrogen_storage (episode (fst s))"

definition cursor :: "env \<times> heap \<Rightarrow> int option" where
  "cursor s = map_option counter (episode (fst s))"

text \<open>The value of the observation list the object holds.\<close>

definition observation_value :: "env \<times> heap \<Rightarrow> pytree option" where
  "observation_value s =
     (case lastPonctualObservation (fst s) of None \<Rightarrow> None | Some v \<Rightarrow> tree_of 2 (snd s) v)"

text \<open>
  The observation list as the supported branches of the constructor and of \<open>reset\<close>
  build it and \<open>act\<close> keeps it: a number, a reference to a list of two numbers and,
  with the flags, a number and a reference to another list of two numbers.
\<close>

fun two_nums :: "pyval list \<Rightarrow> bool" where
  "two_nums [Num x, Num y] = True"
| "two_nums xs = False"

definition is_pair :: "heap \<Rightarrow> addr \<Rightarrow> bool" where
  "is_pair h b = (b < length h \<and> two_nums (h ! b))"

fun obs_shape :: "heap \<Rightarrow> int \<Rightarrow> int \<Rightarrow> pyval list \<Rightarrow> bool" where
  "obs_shape h d p [Num l, Ref b] = (d = 0 \<and> p = 0 \<and> is_pair h b)"
| "obs_shape h d p [Num l, Ref b, Num s] = (d = 1 \<and> p = 0 \<and> is_pair h b)"
| "obs_shape h d p [Num l, Ref b, Num s, Ref f] =
     (d = 1 \<and> p = 1 \<and> is_pair h b \<and> is_pair h f \<and> b \<noteq> f)"
| "obs_shape h d p xs = False"

definition obs_ok :: "env \<times> heap \<Rightarrow> bool" where
  "obs_ok s =
     (case lastPonctualObservation (fst s) of
        Some (Ref a) \<Rightarrow>
          a < length (snd s)
          \<and> obs_shape (snd s) (dist_equinox (fst s)) (pred (fst s)) (snd s ! a)
      | _ \<Rightarrow> False)"

text \<open>The three pairs of flags for which the \<^verbatim>\<open>if/elif\<close> chains have a branch.\<close>

definition supported_flags :: "env \<Rightarrow> bool" where
  "supported_flags e =
     ((dist_equinox e = 1 \<and> pred e = 1) \<or> (dist_equinox e = 1 \<and> pred e = 0)
      \<or> (dist_equinox e = 0 \<and> pred e = 0))"

text \<open>A sequence of \<open>act\<close> calls, each of which returns.\<close>

fun run :: "pyarg list \<Rightarrow> env \<times> heap \<Rightarrow> (env \<times> heap) option" where
  "run [] s = Some s"
| "run (a # as) s =
     (case act a s of (Inl err, s') \<Rightarrow> None | (Inr r, s') \<Rightarrow> run as s')"

text \<open>
  The arithmetic of lines 175 to 186 on numbers alone: the level the battery is left
  at and the reward after the penalty, for a level \<open>l\<close>, a need and a reward so far.
\<close>

definition battery_level :: "real \<Rightarrow> real \<Rightarrow> real" where
  "battery_level l need =
     (if need > 0 then (if l * battery_size > need then l - need / battery_size else 0)
      else if need < 0 then min 1 (l - need / battery_size * battery_eta)
      else l)"

definition battery_reward :: "real \<Rightarrow> real \<Rightarrow> real \<Rightarrow> real" where
  "battery_reward l need reward =
     (if need > 0 \<and> \<not> l * battery_size > need then reward - (need - l * battery_size) * 2
      else reward)"

text \<open>
  The cursor is in range for a step: position \<open>counter - 1\<close> of the two scaled series
  and position \<open>counter\<close> of the two normalised ones exist.
\<close>

definition cursor_in_range :: "episode \<Rightarrow> bool" where
  "cursor_in_range ep =
     (1 \<le> counter ep
      \<and> counter ep \<le> int (length (consumption ep))
      \<and> counter ep \<le> int (length (production ep))
      \<and> counter ep < int (length (consumption_norm ep))
      \<and> counter ep < int (length (production_norm ep)))"

text \<open>The addresses of the list objects a value reaches, to a bounded depth.\<close>

fun addrs_of :: "nat \<Rightarrow> heap \<Rightarrow> pyval \<Rightarrow> addr list" where
  "addrs_of d h (Num x) = []"
| "addrs_of 0 h (Ref a) = [a]"
| "addrs_of (Suc d) h (Ref a) =
     a # (if a < length h then concat (map (addrs_of d h) (h ! a)) else [])"

subsection \<open>Example objects\<close>

text \<open>
  The object the constructor builds from four short files, in the empty store, and the
  state \<open>reset(-1)\<close> leaves it in.
\<close>

definition example_env :: env where
  "example_env =
     \<lparr> dist_equinox = 0, pred = 0, nActions = 3,
       lastPonctualObservation = Some (Ref 1),
       inputDimensions = Some [[1], [12, 2]],
       consumption_train_norm = [50 / 7, 1, 1 / 4, 1 / 3], consumption_valid_norm = [],
       consumption_test_norm = [1, 1],
       consumption_train = [15, 21 / 10, 21 / 40, 7 / 10], consumption_valid = [],
       consumption_test = [21 / 10, 21 / 10],
       min_consumption = 21 / 40, max_consumption = 15,
       production_train_norm = [0, 0, 1 / 5, 1 / 2], production_valid_norm = [],
       production_test_norm = [0, 0],
       production_train = [0, 0, 12 / 5, 6], production_valid = [],
       production_test = [0, 0],
       min_production = 0, max_production = 6,
       episode = None \<rparr>"

definition example_heap :: heap where
  "example_heap = [[Num 0, Num 0], [Num 0, Ref 0]]"

definition example_state :: "env \<times> heap" where
  "example_state = snd (reset (PyInt (- 1)) (example_env, example_heap))"

text \<open>
  An object with both flags set, as the first branches of the two chains would leave
  it, over series of fifty hours.
\<close>

definition example_full_state :: "env \<times> heap" where
  "example_full_state =
     (example_env
        \<lparr> dist_equinox := 1, pred := 1,
          lastPonctualObservation := Some (Ref 2),
          inputDimensions := Some [[1], [12, 2], [1], [1, 2]],
          episode := Some \<lparr> counter = 1, hydrogen_storage = 0,
                             production_norm = replicate 50 (1 / 2),
                             production = replicate 50 6,
                             consumption_norm = replicate 50 (1 / 3),
                             consumption = replicate 50 (7 / 10) \<rparr> \<rparr>,
      [[Num 0, Num 0], [Num 0, Num 0], [Num 1, Ref 0, Num 0, Ref 1]])"

section \<open>Properties of the model\<close>

lemmas eval_defs = MyEnv_init_def observation_display_def new_list_def
  dimensions_display_def py_slice_def clip_index_def py_min_def py_max_def inc_sizing_def
  reset_def bind_series_def reset_return_def zero_history_def act_def true_demand_def hydrogen_action_def
  battery_def read_level_def write_level_def write_cell_def assemble_current_def
  assemble_optional_def np_getitem_def Let_def battery_size_def battery_eta_def
  hydrogen_max_power_def hydrogen_eta_def shortTermLevel_def longTermLevel_def cursor_def
  observation_value_def obs_ok_def is_pair_def supported_flags_def cursor_in_range_def
  example_env_def example_heap_def example_state_def example_full_state_def observe_def
  append_item_def eval_nat_numeral

subsection \<open>The example object is what the constructor builds\<close>

lemma example_constructed:
  "MyEnv_init [50 / 7, 1, 1 / 4, 1 / 3] [1, 1] [0, 0, 1 / 5, 1 / 2] [0, 0] []
     = (Inr example_env, example_heap)"
  by (simp add: eval_defs)

lemma example_state_ok: "obs_ok example_state \<and> shortTermLevel example_state = Some 1"
  by (simp add: eval_defs)

lemma example_full_state_ok: "obs_ok example_full_state"
  by (simp add: eval_defs)

subsection \<open>The shape of the observation list\<close>

lemma two_numsE:
  assumes "two_nums xs" obtains x y where "xs = [Num x, Num y]"
  using assms by (cases xs rule: two_nums.cases) auto

lemma is_pairE:
  assumes "is_pair h b"
  obtains x y where "b < length h" "h ! b = [Num x, Num y]"
  using assms unfolding is_pair_def by (auto elim: two_numsE)

lemma is_pairI: "b < length h \<Longrightarrow> h ! b = [Num x, Num y] \<Longrightarrow> is_pair h b"
  by (simp add: is_pair_def)

lemma obs_shape_cases:
  assumes "obs_shape h d p xs"
  shows "(\<exists>l b. xs = [Num l, Ref b] \<and> d = 0 \<and> p = 0 \<and> is_pair h b)
       \<or> (\<exists>l b s. xs = [Num l, Ref b, Num s] \<and> d = 1 \<and> p = 0 \<and> is_pair h b)
       \<or> (\<exists>l b s f. xs = [Num l, Ref b, Num s, Ref f] \<and> d = 1 \<and> p = 1 \<and> is_pair h b
            \<and> is_pair h f \<and> b \<noteq> f)"
  using assms by (cases "(h, d, p, xs)" rule: obs_shape.cases) simp_all

lemma read_level_at:
  "a < length h \<Longrightarrow> h ! a = Num l # xs \<Longrightarrow> read_level (Some (Ref a)) h = Inr l"
  by (simp add: read_level_def)

lemma write_level_at:
  "a < length h \<Longrightarrow> h ! a = Num l # xs \<Longrightarrow>
   write_level (Some (Ref a)) x h = Inr (h[a := Num x # xs])"
  by (simp add: write_level_def)

lemma battery_at:
  assumes "a < length h" "h ! a = Num l # xs"
  shows "battery (Some (Ref a)) need reward h =
           (Inr (battery_reward l need reward), h[a := Num (battery_level l need) # xs])"
proof -
  have id: "h[a := Num l # xs] = h" using assms by (metis list_update_id)
  show ?thesis
    using assms id
    by (simp add: battery_def read_level_at write_level_at battery_level_def battery_reward_def)
qed

lemma write_cell_at:
  assumes "a < length h" "i < length (h ! a)" "h ! a ! i = Ref b" "b < length h" "j < length (h ! b)"
  shows "write_cell (Some (Ref a)) i j x h = Inr (h[b := (h ! b)[j := Num x]])"
  using assms by (simp add: write_cell_def)

lemma assemble_current_at:
  assumes "a < length h" "h ! a = v # Ref b # xs" "b < length h" "h ! b = [Num c0, Num p0]"
    and "np_getitem (consumption_norm ep) (counter ep) = Inr c"
    and "np_getitem (production_norm ep) (counter ep) = Inr p"
  shows "assemble_current (Some (Ref a)) ep h = (None, h[b := [Num c, Num p]])"
proof -
  have ab: "a \<noteq> b" using assms by auto
  show ?thesis using assms ab
    by (simp add: assemble_current_def write_cell_at)
qed


lemma assemble_optional_00:
  assumes "dist_equinox e = 0" "pred e = 0"
  shows "assemble_optional e ep h = (None, h)"
  using assms by (simp add: assemble_optional_def)

lemma act_unfold:
  assumes ep: "episode e = Some ep" and td: "true_demand ep = Inr td"
    and hy: "hydrogen_action action = Some (avail, diff)"
    and ob: "lastPonctualObservation e = Some (Ref a)"
    and a: "a < length h" and ha: "h ! a = Num l # Ref b # xs"
    and b: "b < length h" and hb: "h ! b = [Num c0, Num p0]"
    and cn: "np_getitem (consumption_norm ep) (counter ep) = Inr c"
    and pn: "np_getitem (production_norm ep) (counter ep) = Inr p"
    and ep1: "ep1 = ep\<lparr>hydrogen_storage := hydrogen_storage ep + diff\<rparr>"
    and h2: "h2 = h[a := Num (battery_level l (td + avail)) # Ref b # xs, b := [Num c, Num p]]"
  shows "act action (e, h) =
           (case assemble_optional (e\<lparr>episode := Some ep1\<rparr>) ep1 h2 of
              (Some err, h3) \<Rightarrow> (Inl err, e\<lparr>episode := Some ep1\<rparr>, h3)
            | (None, h3) \<Rightarrow>
                (Inr (battery_reward l (td + avail) (diff / 10)),
                 e\<lparr>episode := Some (ep\<lparr>hydrogen_storage := hydrogen_storage ep + diff,
                                         counter := counter ep + 1\<rparr>)\<rparr>, h3))"
proof -
  let ?h1 = "h[a := Num (battery_level l (td + avail)) # Ref b # xs]"
  have ab: "a \<noteq> b" using ha hb by auto
  note bat = battery_at [OF a ha]
  have cur: "assemble_current (Some (Ref a)) ep1 ?h1 = (None, h2)"
    unfolding h2
    by (rule assemble_current_at [where ?c0.0 = c0 and ?p0.0 = p0])
       (use a b hb ab cn pn ep1 in simp_all)
  show ?thesis
    using cur unfolding ep1
    by (simp add: act_def Let_def ep td hy ob bat split: prod.splits option.splits)
qed


lemma obs_ok_episode [simp]: "obs_ok (e\<lparr>episode := x\<rparr>, h) = obs_ok (e, h)"
  by (simp add: obs_ok_def split: option.splits pyval.splits)

lemma shortTermLevel_episode [simp]:
  "shortTermLevel (e\<lparr>episode := x\<rparr>, h) = shortTermLevel (e, h)"
  by (simp add: shortTermLevel_def)

lemma observation_value_episode [simp]:
  "observation_value (e\<lparr>episode := x\<rparr>, h) = observation_value (e, h)"
  by (simp add: observation_value_def split: option.splits)

lemma tree_of_2: "tree_of 2 h v = tree_of (Suc (Suc 0)) h v"
  by (simp add: numeral_2_eq_2)

lemma act_success:
  assumes ok: "obs_ok (e, h)" and ep: "episode e = Some ep"
    and td: "true_demand ep = Inr td"
    and hy: "hydrogen_action action = Some (avail, diff)"
    and cn: "np_getitem (consumption_norm ep) (counter ep) = Inr c"
    and pn: "np_getitem (production_norm ep) (counter ep) = Inr p"
    and e': "e' = e\<lparr>episode := Some (ep\<lparr>hydrogen_storage := hydrogen_storage ep + diff,
                                         counter := counter ep + 1\<rparr>)\<rparr>"
  shows "\<exists>l h'. shortTermLevel (e, h) = Some l
           \<and> act action (e, h) = (Inr (battery_reward l (td + avail) (diff / 10)), e', h')
           \<and> length h' = length h \<and> obs_ok (e', h')
           \<and> shortTermLevel (e', h') = Some (battery_level l (td + avail))
           \<and> observation_value (e', h') =
               Some (Node ([Leaf (battery_level l (td + avail)), Node [Leaf c, Leaf p]]
                 @ (if dist_equinox e = 1
                    then [Leaf (\<bar>real_of_int (counter ep) / 24 - 365 / 2\<bar> / (365 / 2))] else [])
                 @ (if pred e = 1
                    then [Node [Leaf (sum_list (py_slice (production_norm ep) (counter ep)
                                                  (counter ep + 24)) / 24),
                                Leaf (sum_list (py_slice (production_norm ep) (counter ep)
                                                  (counter ep + 48)) / 48)]]
                    else [])))"
proof -
  from ok obtain a where ob: "lastPonctualObservation e = Some (Ref a)" and a: "a < length h"
    and sh: "obs_shape h (dist_equinox e) (pred e) (h ! a)"
    by (auto simp: obs_ok_def split: option.splits pyval.splits)
  let ?l' = "\<lambda>l. battery_level l (td + avail)"
  let ?ep1 = "ep\<lparr>hydrogen_storage := hydrogen_storage ep + diff\<rparr>"
  from obs_shape_cases [OF sh] consider
      (basic) l b where "h ! a = [Num l, Ref b]" "dist_equinox e = 0" "pred e = 0" "is_pair h b"
    | (seasonal) l b s where "h ! a = [Num l, Ref b, Num s]" "dist_equinox e = 1" "pred e = 0"
        "is_pair h b"
    | (full) l b s f where "h ! a = [Num l, Ref b, Num s, Ref f]" "dist_equinox e = 1"
        "pred e = 1" "is_pair h b" "is_pair h f" "b \<noteq> f"
    by blast
  then show ?thesis
  proof cases
    case basic
    from basic(4) obtain c0 p0 where b: "b < length h" "h ! b = [Num c0, Num p0]"
      by (rule is_pairE)
    have ab: "a \<noteq> b" using basic(1) b by auto
    let ?h2 = "h[a := [Num (?l' l), Ref b], b := [Num c, Num p]]"
    have act: "act action (e, h) = (Inr (battery_reward l (td + avail) (diff / 10)), e', ?h2)"
      using act_unfold [OF ep td hy ob a basic(1) b cn pn refl refl] basic(2,3)
      by (simp add: assemble_optional_00 e')
    have "shortTermLevel (e, h) = Some l"
      using a basic(1) by (simp add: shortTermLevel_def ob read_level_at)
    moreover have "obs_ok (e', ?h2)"
      using a b ab basic(2,3) by (simp add: e' obs_ok_def ob is_pair_def)
    moreover have "shortTermLevel (e', ?h2) = Some (?l' l)"
      using a b ab by (simp add: e' shortTermLevel_def ob read_level_def)
    moreover have "observation_value (e', ?h2) = Some (Node [Leaf (?l' l), Node [Leaf c, Leaf p]])"
      using a b ab by (simp add: e' observation_value_def ob tree_of_2)
    ultimately show ?thesis using act basic(2,3) by simp
  next
    case seasonal
    from seasonal(4) obtain c0 p0 where b: "b < length h" "h ! b = [Num c0, Num p0]"
      by (rule is_pairE)
    have ab: "a \<noteq> b" using seasonal(1) b by auto
    let ?s' = "\<bar>real_of_int (counter ep) / 24 - 365 / 2\<bar> / (365 / 2)"
    let ?h2 = "h[a := [Num (?l' l), Ref b, Num s], b := [Num c, Num p]]"
    let ?h3 = "?h2[a := [Num (?l' l), Ref b, Num ?s']]"
    have opt: "assemble_optional (e\<lparr>episode := Some ?ep1\<rparr>) ?ep1 ?h2 = (None, ?h3)"
      using a b ab seasonal(2,3)
      by (simp add: assemble_optional_def ob)
    have act: "act action (e, h) = (Inr (battery_reward l (td + avail) (diff / 10)), e', ?h3)"
      using act_unfold [OF ep td hy ob a seasonal(1) b cn pn refl refl]
      by (simp add: opt e')
    have "shortTermLevel (e, h) = Some l"
      using a seasonal(1) by (simp add: shortTermLevel_def ob read_level_at)
    moreover have "obs_ok (e', ?h3)"
      using a b ab seasonal(2,3) by (simp add: e' obs_ok_def ob is_pair_def)
    moreover have "shortTermLevel (e', ?h3) = Some (?l' l)"
      using a b ab by (simp add: e' shortTermLevel_def ob read_level_def)
    moreover have "observation_value (e', ?h3)
        = Some (Node [Leaf (?l' l), Node [Leaf c, Leaf p], Leaf ?s'])"
      using a b ab by (simp add: e' observation_value_def ob tree_of_2)
    ultimately show ?thesis using act seasonal(2,3) by simp
  next
    case full
    from full(4) obtain c0 p0 where b: "b < length h" "h ! b = [Num c0, Num p0]"
      by (rule is_pairE)
    from full(5) obtain u v where f: "f < length h" "h ! f = [Num u, Num v]"
      by (rule is_pairE)
    have ab: "a \<noteq> b" using full(1) b by auto
    have af: "a \<noteq> f" using full(1) f by auto
    let ?s' = "\<bar>real_of_int (counter ep) / 24 - 365 / 2\<bar> / (365 / 2)"
    let ?f24 = "sum_list (py_slice (production_norm ep) (counter ep) (counter ep + 24)) / 24"
    let ?f48 = "sum_list (py_slice (production_norm ep) (counter ep) (counter ep + 48)) / 48"
    let ?h2 = "h[a := [Num (?l' l), Ref b, Num s, Ref f], b := [Num c, Num p]]"
    let ?h3 = "?h2[a := [Num (?l' l), Ref b, Num ?s', Ref f], f := [Num ?f24, Num ?f48]]"
    have opt: "assemble_optional (e\<lparr>episode := Some ?ep1\<rparr>) ?ep1 ?h2 = (None, ?h3)"
      using a b f ab af full(2,3,6)
      by (simp add: assemble_optional_def ob write_cell_def)
    have act: "act action (e, h) = (Inr (battery_reward l (td + avail) (diff / 10)), e', ?h3)"
      using act_unfold [OF ep td hy ob a full(1) b cn pn refl refl]
      by (simp add: opt e')
    have "shortTermLevel (e, h) = Some l"
      using a full(1) by (simp add: shortTermLevel_def ob read_level_at)
    moreover have "obs_ok (e', ?h3)"
      using a b f ab af full(2,3,6) by (simp add: e' obs_ok_def ob is_pair_def)
    moreover have "shortTermLevel (e', ?h3) = Some (?l' l)"
      using a b f ab af by (simp add: e' shortTermLevel_def ob read_level_def)
    moreover have "observation_value (e', ?h3)
        = Some (Node [Leaf (?l' l), Node [Leaf c, Leaf p], Leaf ?s', Node [Leaf ?f24, Leaf ?f48]])"
      using a b f ab af full(6) by (simp add: e' observation_value_def ob tree_of_2)
    ultimately show ?thesis using act full(2,3) by simp
  qed
qed

subsection \<open>One step\<close>

lemma in_range_reads:
  assumes "cursor_in_range ep"
  shows "true_demand ep = Inr (consumption ep ! nat (counter ep - 1)
                               - production ep ! nat (counter ep - 1))"
    and "np_getitem (consumption_norm ep) (counter ep) = Inr (consumption_norm ep ! nat (counter ep))"
    and "np_getitem (production_norm ep) (counter ep) = Inr (production_norm ep ! nat (counter ep))"
  using assms by (simp_all add: cursor_in_range_def true_demand_def np_getitem_def)

lemma hydrogen_action_int:
  "a \<in> {0, 1, 2} \<Longrightarrow>
   hydrogen_action (PyInt a) =
     Some (if a = 0 then - hydrogen_max_power * hydrogen_eta
           else if a = 1 then 0 else hydrogen_max_power / hydrogen_eta,
           if a = 0 then - hydrogen_max_power else if a = 1 then 0 else hydrogen_max_power)"
  by (auto simp: hydrogen_action_def)

lemma battery_reward_unmet:
  "battery_reward l need reward
     = reward - 2 * (if need > 0 then max 0 (need - l * battery_size) else 0)"
  by (simp add: battery_reward_def max_def)

text \<open>
  C1. For an action \<open>a\<close> among 0, 1 and 2 and a cursor in range, \<open>act\<close> takes the energy
  from the long-term store to be \<open>- hydrogen_max_power * hydrogen_eta\<close>, \<open>0\<close> or
  \<open>hydrogen_max_power / hydrogen_eta\<close>, adds \<open>- hydrogen_max_power\<close>, \<open>0\<close> or
  \<open>hydrogen_max_power\<close> to \<open>hydrogen_storage\<close>, and returns that amount times 0.1 minus
  twice the unmet demand, the part of the net need above what the battery holds. With
  the constructor's 1.1 and 0.65 and a battery that holds the net need, action 0
  returns -0.11.
\<close>

theorem act_long_term_flows_and_reward:
  assumes ok: "obs_ok (e, h)" and ep: "episode e = Some ep" and rng: "cursor_in_range ep"
    and lv: "shortTermLevel (e, h) = Some l" and a: "a \<in> {0, 1, 2}"
  shows "let energyFromLongTerm =
               (if a = 0 then - hydrogen_max_power * hydrogen_eta
                else if a = 1 then 0 else hydrogen_max_power / hydrogen_eta);
             longTermDelta =
               (if a = 0 then - hydrogen_max_power
                else if a = 1 then 0 else hydrogen_max_power);
             trueDemand = consumption ep ! nat (counter ep - 1)
                          - production ep ! nat (counter ep - 1);
             netNeed = trueDemand + energyFromLongTerm;
             unmet = (if netNeed > 0 then max 0 (netNeed - l * battery_size) else 0)
         in hydrogen_action (PyInt a) = Some (energyFromLongTerm, longTermDelta)
          \<and> (\<exists>s'. act (PyInt a) (e, h) = (Inr (longTermDelta * (1 / 10) - 2 * unmet), s')
                  \<and> longTermLevel s' = Some (hydrogen_storage ep + longTermDelta)
                  \<and> shortTermLevel s' = Some (battery_level l netNeed))
          \<and> (0 \<le> l \<longrightarrow> unmet = max 0 (netNeed - l * battery_size))
          \<and> (a = 0 \<and> netNeed \<le> l * battery_size \<longrightarrow>
               hydrogen_max_power = 11 / 10 \<and> hydrogen_eta = 65 / 100
               \<and> longTermDelta * (1 / 10) - 2 * unmet = - (11 / 100))"
proof -
  define efl where "efl = (if a = 0 then - hydrogen_max_power * hydrogen_eta
                else if a = 1 then 0 else hydrogen_max_power / hydrogen_eta)"
  define delta where "delta = (if a = 0 then - hydrogen_max_power
                else if a = 1 then 0 else hydrogen_max_power)"
  define td where "td = consumption ep ! nat (counter ep - 1)
                          - production ep ! nat (counter ep - 1)"
  define unmet where "unmet = (if td + efl > 0 then max 0 (td + efl - l * battery_size) else 0)"
  have hy: "hydrogen_action (PyInt a) = Some (efl, delta)"
    using hydrogen_action_int [OF a] by (simp add: efl_def delta_def)
  note rd = in_range_reads [OF rng]
  from act_success [OF ok ep rd(1) [folded td_def] hy rd(2,3) refl] lv
  obtain h' where act: "act (PyInt a) (e, h) =
        (Inr (battery_reward l (td + efl) (delta / 10)),
         e\<lparr>episode := Some (ep\<lparr>hydrogen_storage := hydrogen_storage ep + delta,
                                 counter := counter ep + 1\<rparr>)\<rparr>, h')"
    and lv': "shortTermLevel (e\<lparr>episode := Some (ep\<lparr>hydrogen_storage := hydrogen_storage ep + delta,
                                 counter := counter ep + 1\<rparr>)\<rparr>, h') = Some (battery_level l (td + efl))"
    by auto
  have 1: "\<exists>s'. act (PyInt a) (e, h) = (Inr (delta * (1 / 10) - 2 * unmet), s')
                  \<and> longTermLevel s' = Some (hydrogen_storage ep + delta)
                  \<and> shortTermLevel s' = Some (battery_level l (td + efl))"
    using act lv' by (simp add: battery_reward_unmet unmet_def longTermLevel_def)
  have 2: "0 \<le> l \<longrightarrow> unmet = max 0 (td + efl - l * battery_size)"
    by (auto simp: unmet_def battery_size_def inc_sizing_def max_def)
  have 3: "a = 0 \<and> td + efl \<le> l * battery_size \<longrightarrow>
               hydrogen_max_power = 11 / 10 \<and> hydrogen_eta = 65 / 100
               \<and> delta * (1 / 10) - 2 * unmet = - (11 / 100)"
    by (auto simp: unmet_def delta_def hydrogen_max_power_def hydrogen_eta_def inc_sizing_def max_def)
  show ?thesis
    using hy 1 2 3
    unfolding Let_def efl_def [symmetric] delta_def [symmetric] td_def [symmetric]
      unmet_def [symmetric]
    by blast
qed

theorem act_long_term_flows_and_reward_witness:
  "obs_ok example_state \<and> cursor_in_range (the (episode (fst example_state)))
   \<and> shortTermLevel example_state = Some 1 \<and> (0::int) \<in> {0, 1, 2}
   \<and> fst (act (PyInt 0) example_state) = Inr (- (11 / 100))
   \<and> longTermLevel (snd (act (PyInt 0) example_state)) = Some (- (11 / 10))"
proof -
  have ok: "obs_ok (fst example_state, snd example_state)"
    and ep: "episode (fst example_state) = Some (the (episode (fst example_state)))"
    and rng: "cursor_in_range (the (episode (fst example_state)))"
    and lv: "shortTermLevel (fst example_state, snd example_state) = Some 1"
    by (simp_all add: eval_defs)
  have a: "(0::int) \<in> {0, 1, 2}" by simp
  show ?thesis
    using act_long_term_flows_and_reward [OF ok ep rng lv a] ok rng lv
    by (auto simp: Let_def eval_defs)
qed

text \<open>
  C4. When the net need is positive and the battery holds at least that much, the
  level drops by the need divided by the capacity and the reward is the long-term
  amount times 0.1, with no penalty; when the need equals what the battery holds, the
  level becomes exactly 0.
\<close>

theorem act_battery_covers_need:
  assumes ok: "obs_ok (e, h)" and ep: "episode e = Some ep" and rng: "cursor_in_range ep"
    and lv: "shortTermLevel (e, h) = Some l"
    and hy: "hydrogen_action action = Some (energyFromLongTerm, longTermDelta)"
    and need: "netNeed = consumption ep ! nat (counter ep - 1)
                         - production ep ! nat (counter ep - 1) + energyFromLongTerm"
    and pos: "0 < netNeed" and enough: "netNeed \<le> l * battery_size"
  shows "\<exists>s'. act action (e, h) = (Inr (longTermDelta * (1 / 10)), s')
           \<and> shortTermLevel s' = Some (l - netNeed / battery_size)
           \<and> (netNeed = l * battery_size \<longrightarrow> shortTermLevel s' = Some 0)"
proof -
  note rd = in_range_reads [OF rng]
  from act_success [OF ok ep rd(1) hy rd(2,3) refl] lv need
  obtain s' where act: "act action (e, h) =
        (Inr (battery_reward l netNeed (longTermDelta / 10)), s')"
    and lv': "shortTermLevel s' = Some (battery_level l netNeed)"
    by auto
  have r: "battery_reward l netNeed (longTermDelta / 10) = longTermDelta * (1 / 10)"
    using pos enough by (auto simp: battery_reward_def)
  have l': "battery_level l netNeed = l - netNeed / battery_size"
    using pos enough by (auto simp: battery_level_def battery_size_def inc_sizing_def)
  have z: "netNeed = l * battery_size \<longrightarrow> l - netNeed / battery_size = 0"
    by (simp add: battery_size_def inc_sizing_def)
  show ?thesis using act lv' r l' z by auto
qed

theorem act_battery_covers_need_witness:
  "obs_ok example_state \<and> cursor_in_range (the (episode (fst example_state)))
   \<and> shortTermLevel example_state = Some 1
   \<and> hydrogen_action (PyInt 1) = Some (0, 0)
   \<and> (0::real) < 15 \<and> (15::real) \<le> 1 * battery_size
   \<and> fst (act (PyInt 1) example_state) = Inr 0
   \<and> shortTermLevel (snd (act (PyInt 1) example_state)) = Some 0"
proof -
  have ok: "obs_ok (fst example_state, snd example_state)"
    and ep: "episode (fst example_state) = Some (the (episode (fst example_state)))"
    and rng: "cursor_in_range (the (episode (fst example_state)))"
    and lv: "shortTermLevel (fst example_state, snd example_state) = Some 1"
    and hy: "hydrogen_action (PyInt 1) = Some (0, 0)"
    and need: "15 = consumption (the (episode (fst example_state))) ! nat (counter (the (episode (fst example_state))) - 1)
                         - production (the (episode (fst example_state))) ! nat (counter (the (episode (fst example_state))) - 1) + 0"
    and pos: "(0::real) < 15" and enough: "(15::real) \<le> 1 * battery_size"
    by (simp_all add: eval_defs)
  from act_battery_covers_need [OF ok ep rng lv hy need pos enough]
  obtain s' where "act (PyInt 1) (fst example_state, snd example_state) = (Inr (0 * (1 / 10)), s')"
    and "shortTermLevel s' = Some (1 - 15 / battery_size)"
    by blast
  then have "fst (act (PyInt 1) example_state) = Inr 0"
    and "shortTermLevel (snd (act (PyInt 1) example_state)) = Some 0"
    by (simp_all add: battery_size_def inc_sizing_def)
  with ok rng lv hy pos enough show ?thesis by simp
qed

subsection \<open>What a step reads and what it writes\<close>

lemma take_drop_as_nth:
  "m + n \<le> length xs \<Longrightarrow> take n (drop m xs) = map ((!) xs) [m..<m + n]"
  by (rule nth_equalityI) auto

lemma py_slice_in_range:
  assumes "0 \<le> c" "c + int n \<le> int (length xs)"
  shows "py_slice xs c (c + int n) = map ((!) xs) [nat c..<nat c + n]"
proof -
  have "py_slice xs c (c + int n) = take n (drop (nat c) xs)"
    using assms by (simp add: py_slice_def clip_index_def Let_def min_def)
  also have "\<dots> = map ((!) xs) [nat c..<nat c + n]"
    using assms by (intro take_drop_as_nth) linarith
  finally show ?thesis .
qed

text \<open>
  C8. A step entered with cursor \<open>c\<close> computes the demand from the scaled series at
  \<open>c - 1\<close>, writes the normalised consumption and production at \<open>c\<close> into the
  observation, with the flags the seasonal value \<open>|c/24 - 182.5| / 182.5\<close> and the means
  of the normalised production over the next 24 and 48 positions from \<open>c\<close>, and leaves
  the cursor at \<open>c + 1\<close>.
\<close>

theorem act_reads_and_observation:
  assumes ok: "obs_ok (e, h)" and ep: "episode e = Some ep" and rng: "cursor_in_range ep"
    and c: "counter ep = c"
    and lv: "shortTermLevel (e, h) = Some l"
    and hy: "hydrogen_action action = Some (energyFromLongTerm, longTermDelta)"
  shows "\<exists>trueDemand s' level rest.
           trueDemand = consumption ep ! nat (c - 1) - production ep ! nat (c - 1)
         \<and> true_demand ep = Inr trueDemand
         \<and> act action (e, h) =
             (Inr (battery_reward l (trueDemand + energyFromLongTerm) (longTermDelta / 10)), s')
         \<and> level = battery_level l (trueDemand + energyFromLongTerm)
         \<and> shortTermLevel s' = Some level
         \<and> observation_value s' =
             Some (Node (Leaf level
                         # Node [Leaf (consumption_norm ep ! nat c),
                                 Leaf (production_norm ep ! nat c)]
                         # rest))
         \<and> (dist_equinox e = 1 \<longrightarrow>
               rest \<noteq> [] \<and> rest ! 0 = Leaf (\<bar>real_of_int c / 24 - 1825 / 10\<bar> / (1825 / 10)))
         \<and> (pred e = 1 \<and> c + 48 \<le> int (length (production_norm ep)) \<longrightarrow>
               length rest = 2
               \<and> rest ! 1 =
                   Node [Leaf (sum_list (map ((!) (production_norm ep)) [nat c..<nat c + 24]) / 24),
                         Leaf (sum_list (map ((!) (production_norm ep)) [nat c..<nat c + 48]) / 48)])
         \<and> (dist_equinox e = 0 \<longrightarrow> rest = [])
         \<and> cursor s' = Some (c + 1)"
proof -
  note rd = in_range_reads [OF rng]
  define td where "td = consumption ep ! nat (c - 1) - production ep ! nat (c - 1)"
  define e' where "e' = e\<lparr>episode := Some (ep\<lparr>hydrogen_storage := hydrogen_storage ep + longTermDelta,
                                         counter := counter ep + 1\<rparr>)\<rparr>"
  have tdr: "true_demand ep = Inr td" using rd(1) c by (simp add: td_def)
  from act_success [OF ok ep tdr hy rd(2,3) e'_def] lv
  obtain h' where act: "act action (e, h) =
        (Inr (battery_reward l (td + energyFromLongTerm) (longTermDelta / 10)), e', h')"
    and lv': "shortTermLevel (e', h') = Some (battery_level l (td + energyFromLongTerm))"
    and ov: "observation_value (e', h') =
               Some (Node ([Leaf (battery_level l (td + energyFromLongTerm)),
                            Node [Leaf (consumption_norm ep ! nat (counter ep)),
                                  Leaf (production_norm ep ! nat (counter ep))]]
                 @ (if dist_equinox e = 1
                    then [Leaf (\<bar>real_of_int (counter ep) / 24 - 365 / 2\<bar> / (365 / 2))] else [])
                 @ (if pred e = 1
                    then [Node [Leaf (sum_list (py_slice (production_norm ep) (counter ep)
                                                  (counter ep + 24)) / 24),
                                Leaf (sum_list (py_slice (production_norm ep) (counter ep)
                                                  (counter ep + 48)) / 48)]]
                    else [])))"
    by auto
  from ok have fl: "dist_equinox e = 0 \<and> pred e = 0 \<or> dist_equinox e = 1 \<and> pred e = 0
                    \<or> dist_equinox e = 1 \<and> pred e = 1"
    using obs_shape_cases
    by (fastforce simp: obs_ok_def split: option.splits pyval.splits)
  define rest where "rest = (if dist_equinox e = 1
                    then [Leaf (\<bar>real_of_int c / 24 - 365 / 2\<bar> / (365 / 2))] else [])
                 @ (if pred e = 1
                    then [Node [Leaf (sum_list (py_slice (production_norm ep) c (c + 24)) / 24),
                                Leaf (sum_list (py_slice (production_norm ep) c (c + 48)) / 48)]]
                    else [])"
  have c0: "0 \<le> c" using rng c by (simp add: cursor_in_range_def)
  have s24: "c + 48 \<le> int (length (production_norm ep)) \<Longrightarrow>
      py_slice (production_norm ep) c (c + 24) = map ((!) (production_norm ep)) [nat c..<nat c + 24]"
    using py_slice_in_range [of c 24 "production_norm ep"] c0 by simp
  have s48: "c + 48 \<le> int (length (production_norm ep)) \<Longrightarrow>
      py_slice (production_norm ep) c (c + 48) = map ((!) (production_norm ep)) [nat c..<nat c + 48]"
    using py_slice_in_range [of c 48 "production_norm ep"] c0 by simp
  have 1: "observation_value (e', h') =
             Some (Node (Leaf (battery_level l (td + energyFromLongTerm))
                         # Node [Leaf (consumption_norm ep ! nat c),
                                 Leaf (production_norm ep ! nat c)]
                         # rest))"
    using ov c by (simp add: rest_def)
  have 2: "dist_equinox e = 1 \<longrightarrow>
               rest \<noteq> [] \<and> rest ! 0 = Leaf (\<bar>real_of_int c / 24 - 1825 / 10\<bar> / (1825 / 10))"
    by (simp add: rest_def)
  have 3: "pred e = 1 \<and> c + 48 \<le> int (length (production_norm ep)) \<longrightarrow>
               length rest = 2
               \<and> rest ! 1 =
                   Node [Leaf (sum_list (map ((!) (production_norm ep)) [nat c..<nat c + 24]) / 24),
                         Leaf (sum_list (map ((!) (production_norm ep)) [nat c..<nat c + 48]) / 48)]"
    using fl s24 s48 by (auto simp: rest_def)
  have 4: "dist_equinox e = 0 \<longrightarrow> rest = []"
    using fl by (auto simp: rest_def)
  have 5: "cursor (e', h') = Some (c + 1)"
    using c by (simp add: cursor_def e'_def)
  show ?thesis
    using tdr act lv' 1 2 3 4 5 unfolding td_def by blast
qed

theorem act_reads_and_observation_witness:
  "obs_ok example_full_state
   \<and> cursor_in_range (the (episode (fst example_full_state)))
   \<and> counter (the (episode (fst example_full_state))) = 1
   \<and> shortTermLevel example_full_state = Some 1
   \<and> hydrogen_action (PyInt 1) = Some (0, 0)
   \<and> observation_value (snd (act (PyInt 1) example_full_state)) =
       Some (Node [Leaf 1, Node [Leaf (1 / 3), Leaf (1 / 2)], Leaf (4379 / 4380),
                   Node [Leaf (1 / 2), Leaf (1 / 2)]])
   \<and> cursor (snd (act (PyInt 1) example_full_state)) = Some 2"
proof -
  have ok: "obs_ok (fst example_full_state, snd example_full_state)"
    and ep: "episode (fst example_full_state) = Some (the (episode (fst example_full_state)))"
    and rng: "cursor_in_range (the (episode (fst example_full_state)))"
    and c: "counter (the (episode (fst example_full_state))) = 1"
    and lv: "shortTermLevel (fst example_full_state, snd example_full_state) = Some 1"
    and hy: "hydrogen_action (PyInt 1) = Some (0, 0)"
    by (simp_all add: eval_defs)
  show ?thesis
    using act_reads_and_observation [OF ok ep rng c lv hy] ok rng c lv hy
    by (auto simp: eval_defs tree_of_2)
qed

subsection \<open>An action other than 0, 1 and 2\<close>




subsection \<open>reset\<close>

lemma zero_rows_eq:
  "zero_rows n h = (map Ref [length h..<length h + n], h @ replicate n [Num 0, Num 0])"
proof (induction n arbitrary: h)
  case 0
  show ?case by simp
next
  case (Suc n)
  have "[length h..<length h + Suc n] = length h # [Suc (length h)..<Suc (length h) + n]"
    by (simp add: upt_conv_Cons)
  then show ?case
    by (simp add: Suc new_list_def replicate_app_Cons_same del: upt_Suc)
qed

lemma zero_history_eq:
  "zero_history h =
     (Ref (length h + 12),
      h @ replicate 12 [Num 0, Num 0] @ [map Ref [length h..<length h + 12]])"
  by (simp add: zero_history_def zero_rows_eq new_list_def)

lemma those_map_Some:
  "(\<And>x. x \<in> set xs \<Longrightarrow> f x = Some (g x)) \<Longrightarrow> those (map f xs) = Some (map g xs)"
  by (induction xs) simp_all

lemma tree_of_zero_rows:
  assumes "\<And>i. n \<le> i \<Longrightarrow> i < n + k \<Longrightarrow> i < length h \<and> h ! i = [Num 0, Num 0]"
  shows "those (map (tree_of (Suc 0) h) (map Ref [n..<n + k]))
           = Some (replicate k (Node [Leaf 0, Leaf 0]))"
proof -
  have "those (map (tree_of (Suc 0) h) (map Ref [n..<n + k]))
          = Some (map (\<lambda>v. Node [Leaf 0, Leaf 0]) (map Ref [n..<n + k]))"
    by (rule those_map_Some) (use assms in auto)
  then show ?thesis by (simp add: map_replicate_const)
qed

lemma tree_of_zero_history:
  assumes "h' = h @ replicate 12 [Num 0, Num 0] @ [map Ref [length h..<length h + 12]] @ hs"
  shows "tree_of (Suc (Suc 0)) h' (Ref (length h + 12))
           = Some (Node (replicate 12 (Node [Leaf 0, Leaf 0])))"
proof -
  have len: "length h + 12 < length h'" using assms by simp
  have at: "h' ! (length h + 12) = map Ref [length h..<length h + 12]"
    unfolding assms by (simp add: nth_append)
  have rows: "\<And>i. length h \<le> i \<Longrightarrow> i < length h + 12 \<Longrightarrow>
                 i < length h' \<and> h' ! i = [Num 0, Num 0]"
    unfolding assms by (auto simp: nth_append)
  show ?thesis
    using len at tree_of_zero_rows [of "length h" 12 h', OF rows] by simp
qed


lemma tree_of_3: "tree_of 3 h v = tree_of (Suc (Suc (Suc 0))) h v"
  by (simp add: numeral_3_eq_3)

lemma reset_return_extends:
  "\<exists>hs. snd (reset_return d p h) = h @ hs"
  by (simp add: reset_return_def zero_history_eq new_list_def)

lemma tree_of_top:
  assumes "k < length h" "h ! k = vs" "those (map (tree_of (Suc (Suc 0)) h) vs) = Some ts"
  shows "tree_of 3 h (Ref k) = Some (Node ts)"
  using assms by (simp add: tree_of_3 del: tree_of.simps(3)) (simp add: assms)

lemma reset_return_tree:
  "tree_of 3 (snd (reset_return d p h)) (fst (reset_return d p h)) =
     Some (Node (Leaf 0 # Node (replicate 12 (Node [Leaf 0, Leaf 0]))
                 # (if d = 1 \<and> p = 1 then [Leaf 0, Node [Leaf 0, Leaf 0]]
                    else if d = 1 \<and> p = 0 then [Leaf 0] else [])))"
proof -
  let ?hist = "h @ replicate 12 [Num 0, Num 0] @ [map Ref [length h..<length h + 12]]"
  consider (full) "d = 1 \<and> p = 1" | (seasonal) "\<not> (d = 1 \<and> p = 1)" "d = 1 \<and> p = 0"
    | (basic) "\<not> (d = 1 \<and> p = 1)" "\<not> (d = 1 \<and> p = 0)"
    by blast
  then show ?thesis
  proof cases
    case full
    define h' where
      "h' = ?hist @ [[Num 0, Num 0], [Num 0, Ref (length h + 12), Num 0, Ref (length h + 13)]]"
    have rr: "reset_return d p h = (Ref (length h + 14), h')"
      using full by (simp add: reset_return_def zero_history_eq new_list_def h'_def)
    have hist: "tree_of (Suc (Suc 0)) h' (Ref (length h + 12))
                  = Some (Node (replicate 12 (Node [Leaf 0, Leaf 0])))"
      by (rule tree_of_zero_history) (simp add: h'_def)
    have pair: "tree_of (Suc (Suc 0)) h' (Ref (length h + 13)) = Some (Node [Leaf 0, Leaf 0])"
      by (simp add: nth_append h'_def)
    have top: "h' ! (length h + 14) = [Num 0, Ref (length h + 12), Num 0, Ref (length h + 13)]"
      and len: "length h + 14 < length h'"
      by (simp_all add: nth_append h'_def)
    have "tree_of 3 h' (Ref (length h + 14))
            = Some (Node [Leaf 0, Node (replicate 12 (Node [Leaf 0, Leaf 0])), Leaf 0,
                          Node [Leaf 0, Leaf 0]])"
      by (rule tree_of_top [OF len top]) (simp add: hist pair del: tree_of.simps(3))
    then show ?thesis unfolding rr using full by simp
  next
    case seasonal
    define h' where "h' = ?hist @ [[Num 0, Ref (length h + 12), Num 0]]"
    have rr: "reset_return d p h = (Ref (length h + 13), h')"
      using seasonal by (simp add: reset_return_def zero_history_eq new_list_def h'_def)
    have hist: "tree_of (Suc (Suc 0)) h' (Ref (length h + 12))
                  = Some (Node (replicate 12 (Node [Leaf 0, Leaf 0])))"
      by (rule tree_of_zero_history) (simp add: h'_def)
    have top: "h' ! (length h + 13) = [Num 0, Ref (length h + 12), Num 0]"
      and len: "length h + 13 < length h'"
      by (simp_all add: nth_append h'_def)
    have "tree_of 3 h' (Ref (length h + 13))
            = Some (Node [Leaf 0, Node (replicate 12 (Node [Leaf 0, Leaf 0])), Leaf 0])"
      by (rule tree_of_top [OF len top]) (simp add: hist del: tree_of.simps(3))
    then show ?thesis unfolding rr using seasonal by simp
  next
    case basic
    define h' where "h' = ?hist @ [[Num 0, Ref (length h + 12)]]"
    have rr: "reset_return d p h = (Ref (length h + 13), h')"
      using basic by (simp add: reset_return_def zero_history_eq new_list_def h'_def)
    have hist: "tree_of (Suc (Suc 0)) h' (Ref (length h + 12))
                  = Some (Node (replicate 12 (Node [Leaf 0, Leaf 0])))"
      by (rule tree_of_zero_history) (simp add: h'_def)
    have top: "h' ! (length h + 13) = [Num 0, Ref (length h + 12)]"
      and len: "length h + 13 < length h'"
      by (simp_all add: nth_append h'_def)
    have "tree_of 3 h' (Ref (length h + 13))
            = Some (Node [Leaf 0, Node (replicate 12 (Node [Leaf 0, Leaf 0]))])"
      by (rule tree_of_top [OF len top]) (simp add: hist del: tree_of.simps(3))
    then show ?thesis unfolding rr using basic by simp
  qed
qed


lemma is_pair_extend: "is_pair h b \<Longrightarrow> is_pair (h @ hs) b"
  by (simp add: is_pair_def nth_append)

lemma obs_shape_extend:
  assumes "obs_shape h d p xs" shows "obs_shape (h @ hs) d p xs"
  using obs_shape_cases [OF assms] by (auto intro: is_pair_extend)

lemma obs_ok_extend: "obs_ok (e, h) \<Longrightarrow> obs_ok (e, h @ hs)"
  by (auto simp: obs_ok_def nth_append obs_shape_extend split: option.splits pyval.splits)

lemma shortTermLevel_extend:
  assumes "obs_ok (e, h)" shows "shortTermLevel (e, h @ hs) = shortTermLevel (e, h)"
proof -
  from assms obtain a where "lastPonctualObservation e = Some (Ref a)" "a < length h"
    "obs_shape h (dist_equinox e) (pred e) (h ! a)"
    by (auto simp: obs_ok_def split: option.splits pyval.splits)
  then show ?thesis
    using obs_shape_cases [of h "dist_equinox e" "pred e" "h ! a"]
    by (auto simp: shortTermLevel_def read_level_def nth_append)
qed

lemma observation_display_supported:
  assumes "d = 1 \<and> p = 1 \<or> d = 1 \<and> p = 0 \<or> d = 0 \<and> p = 0"
  shows "\<exists>a hs. observation_display d p x h = Some (Ref a, h @ hs)
           \<and> a < length (h @ hs) \<and> obs_shape (h @ hs) d p ((h @ hs) ! a)
           \<and> (\<exists>vs. (h @ hs) ! a = Num x # vs)"
  using assms
  by (auto simp: observation_display_def new_list_def nth_append is_pair_def)

lemma reset_episode:
  "episode (fst (snd (reset mode (e, h)))) = Some (bind_series mode e)"
  by (simp add: reset_def bind_series_def Let_def split: option.splits prod.splits)

lemma reset_supported:
  assumes "supported_flags e"
  shows "\<exists>r e' h'. reset mode (e, h) = (r, e', h')
           \<and> obs_ok (e', h') \<and> shortTermLevel (e', h') = Some 1
           \<and> dist_equinox e' = dist_equinox e \<and> pred e' = pred e
           \<and> tree_of 3 h' r =
               Some (Node (Leaf 0 # Node (replicate 12 (Node [Leaf 0, Leaf 0]))
                 # (if dist_equinox e = 1 \<and> pred e = 1 then [Leaf 0, Node [Leaf 0, Leaf 0]]
                    else if dist_equinox e = 1 \<and> pred e = 0 then [Leaf 0] else [])))"
proof -
  from assms have fl: "dist_equinox e = 1 \<and> pred e = 1 \<or> dist_equinox e = 1 \<and> pred e = 0
                       \<or> dist_equinox e = 0 \<and> pred e = 0"
    by (simp add: supported_flags_def)
  from observation_display_supported [OF fl, of 1 h]
  obtain a hs vs where od: "observation_display (dist_equinox e) (pred e) 1 h = Some (Ref a, h @ hs)"
    and a: "a < length (h @ hs)"
    and sh: "obs_shape (h @ hs) (dist_equinox e) (pred e) ((h @ hs) ! a)"
    and lv: "(h @ hs) ! a = Num 1 # vs"
    by blast
  define e1 where "e1 = e\<lparr>lastPonctualObservation := Some (Ref a)\<rparr>"
  define h1 where "h1 = h @ hs"
  define rr where "rr = reset_return (dist_equinox e) (pred e) h1"
  obtain hs' where ext: "snd rr = h1 @ hs'"
    using reset_return_extends [of "dist_equinox e" "pred e" h1] by (auto simp: rr_def)
  have ok1: "obs_ok (e1, h1)"
    using a sh by (simp add: obs_ok_def e1_def h1_def)
  have lv1: "shortTermLevel (e1, h1) = Some 1"
    using a lv by (simp add: shortTermLevel_def read_level_def e1_def h1_def)
  have res: "reset mode (e, h) = (fst rr, e1\<lparr>episode := Some (bind_series mode e)\<rparr>, snd rr)"
    by (simp add: reset_def od Let_def rr_def e1_def h1_def bind_series_def split: prod.splits)
  have "obs_ok (e1\<lparr>episode := Some (bind_series mode e)\<rparr>, snd rr)"
    using obs_ok_extend [OF ok1] by (simp add: ext)
  moreover have "shortTermLevel (e1\<lparr>episode := Some (bind_series mode e)\<rparr>, snd rr) = Some 1"
    using shortTermLevel_extend [OF ok1] lv1 by (simp add: ext)
  moreover have "tree_of 3 (snd rr) (fst rr) =
               Some (Node (Leaf 0 # Node (replicate 12 (Node [Leaf 0, Leaf 0]))
                 # (if dist_equinox e = 1 \<and> pred e = 1 then [Leaf 0, Node [Leaf 0, Leaf 0]]
                    else if dist_equinox e = 1 \<and> pred e = 0 then [Leaf 0] else [])))"
    unfolding rr_def by (rule reset_return_tree)
  ultimately show ?thesis
    using res by (simp add: e1_def)
qed

text \<open>
  C5. For any mode, on an object whose flags are one of the three supported pairs (the
  constructor's pair is one), \<open>reset\<close> leaves the buffer level at 1, the long-term level
  at 0 and the cursor at 1, and the list it returns holds only zeros: its first element,
  the buffer-level slot, is 0 although the level the object holds is 1.
\<close>

theorem reset_state_and_returned_observation:
  assumes "supported_flags e"
  shows "\<exists>r s' t. reset mode (e, h) = (r, s')
           \<and> shortTermLevel s' = Some 1 \<and> longTermLevel s' = Some 0 \<and> cursor s' = Some 1
           \<and> tree_of 3 (snd s') r = Some t
           \<and> t = Node (Leaf 0 # Node (replicate 12 (Node [Leaf 0, Leaf 0]))
                       # (if dist_equinox e = 1 \<and> pred e = 1 then [Leaf 0, Node [Leaf 0, Leaf 0]]
                          else if dist_equinox e = 1 \<and> pred e = 0 then [Leaf 0] else []))
           \<and> set (leaves t) = {0}"
proof -
  from reset_supported [OF assms, of mode h]
  obtain r e' h' where res: "reset mode (e, h) = (r, e', h')"
    and lv: "shortTermLevel (e', h') = Some 1"
    and t: "tree_of 3 h' r =
               Some (Node (Leaf 0 # Node (replicate 12 (Node [Leaf 0, Leaf 0]))
                 # (if dist_equinox e = 1 \<and> pred e = 1 then [Leaf 0, Node [Leaf 0, Leaf 0]]
                    else if dist_equinox e = 1 \<and> pred e = 0 then [Leaf 0] else [])))"
    by blast
  have ep: "episode e' = Some (bind_series mode (e\<lparr>lastPonctualObservation := lastPonctualObservation e'\<rparr>))
            \<or> episode e' = Some (bind_series mode e)"
    using reset_episode [of mode e h] res by simp
  have "longTermLevel (e', h') = Some 0" "cursor (e', h') = Some 1"
    using ep by (auto simp: longTermLevel_def cursor_def bind_series_def)
  then show ?thesis using res lv t by auto
qed

theorem reset_state_and_returned_observation_witness:
  "supported_flags example_env
   \<and> shortTermLevel (snd (reset (PyInt 0) (example_env, example_heap))) = Some 1
   \<and> tree_of 3 (snd (snd (reset (PyInt 0) (example_env, example_heap))))
        (fst (reset (PyInt 0) (example_env, example_heap)))
       = Some (Node [Leaf 0, Node (replicate 12 (Node [Leaf 0, Leaf 0]))])"
proof -
  have s: "supported_flags example_env" by (simp add: eval_defs)
  from reset_state_and_returned_observation [OF s, of "PyInt 0" example_heap] s
  show ?thesis by (auto simp: example_env_def)
qed

subsection \<open>The mode\<close>

text \<open>
  C10, as the code has it. \<open>reset\<close> has no error path for the mode. It compares the
  mode with \<open>-1\<close> and \<open>0\<close> by \<^verbatim>\<open>==\<close>: a mode equal to \<open>-1\<close> (also \<open>-1.0\<close>) binds the
  training series, a mode equal to \<open>0\<close> (also \<open>0.0\<close> and \<open>False\<close>) binds the validation
  series, and every other value (1, 7, \<open>True\<close>, \<open>None\<close>) binds the test series.
\<close>

theorem reset_binds_series:
  "(\<exists>r e' h' ep. reset mode (e, h) = (r, e', h') \<and> episode e' = Some ep
       \<and> (production_norm ep, production ep, consumption_norm ep, consumption ep) =
           (if py_eq_int mode (- 1)
            then (production_train_norm e, production_train e,
                  consumption_train_norm e, consumption_train e)
            else if py_eq_int mode 0
            then (production_valid_norm e, production_valid e,
                  consumption_valid_norm e, consumption_valid e)
            else (production_test_norm e, production_test e,
                  consumption_test_norm e, consumption_test e)))
   \<and> py_eq_int (PyInt (- 1)) (- 1) \<and> py_eq_int (PyFloat (- 1)) (- 1)
   \<and> py_eq_int (PyInt 0) 0 \<and> py_eq_int (PyBool False) 0 \<and> py_eq_int (PyFloat 0) 0
   \<and> \<not> py_eq_int (PyInt 1) (- 1) \<and> \<not> py_eq_int (PyInt 1) 0
   \<and> \<not> py_eq_int (PyInt 7) (- 1) \<and> \<not> py_eq_int (PyInt 7) 0
   \<and> \<not> py_eq_int (PyBool True) (- 1) \<and> \<not> py_eq_int (PyBool True) 0
   \<and> \<not> py_eq_int PyNone (- 1) \<and> \<not> py_eq_int PyNone 0"
  by (simp add: reset_def bind_series_def Let_def split: prod.splits option.splits)

text \<open>
  \<open>reset(False)\<close> on the example object binds the validation series, not the test
  series.
\<close>

theorem reset_False_binds_validation:
  "\<not> py_eq_int (PyBool False) (- 1)
   \<and> map_option consumption_norm
         (episode (fst (snd (reset (PyBool False) (example_env, example_heap)))))
       = Some (consumption_valid_norm example_env)
   \<and> consumption_valid_norm example_env \<noteq> consumption_test_norm example_env"
  by (simp add: eval_defs)

subsection \<open>Construction\<close>

lemma py_slice_nonempty: "xs \<noteq> [] \<Longrightarrow> py_slice xs 0 (1 * 365 * 24) \<noteq> []"
  by (cases xs) (simp_all add: py_slice_def clip_index_def Let_def min_def)

lemma py_min_Inr: "xs \<noteq> [] \<Longrightarrow> \<exists>m. py_min xs = Inr m"
  by (cases xs) (simp_all add: py_min_def)

lemma py_max_Inr: "xs \<noteq> [] \<Longrightarrow> \<exists>m. py_max xs = Inr m"
  by (cases xs) (simp_all add: py_max_def)

text \<open>
  Every object the constructor returns has both flags 0, a pair the chains have a
  branch for, the layout \<open>[(1,), (12,2)]\<close> and an observation list of the matching
  shape. The constructor returns an object whenever the two training series are not
  empty.
\<close>

lemma constructed_object:
  assumes "MyEnv_init cons_train_file cons_test_file prod_train_file prod_test_file h
             = (Inr e, h')"
  shows "dist_equinox e = 0 \<and> pred e = 0 \<and> supported_flags e
       \<and> get_inputDimensions e = Inr [[1], [12, 2]] \<and> get_nActions e = 3
       \<and> obs_ok (e, h')"
  using assms
  by (auto simp: MyEnv_init_def Let_def observation_display_def dimensions_display_def
      new_list_def supported_flags_def get_inputDimensions_def get_nActions_def obs_ok_def
      is_pair_def nth_append split: sum.splits)

lemma constructor_returns:
  assumes "cons_train_file \<noteq> []" "prod_train_file \<noteq> []"
  shows "\<exists>e h'. MyEnv_init cons_train_file cons_test_file prod_train_file prod_test_file h
                  = (Inr e, h')"
proof -
  let ?ct = "map (\<lambda>x. x * (21 / 10)) (py_slice cons_train_file 0 (1 * 365 * 24))"
  let ?pt = "map (\<lambda>x. x * 12000 / 1000 * inc_sizing) (py_slice prod_train_file 0 (1 * 365 * 24))"
  have c: "?ct \<noteq> []" and p: "?pt \<noteq> []"
    using assms py_slice_nonempty by simp_all
  obtain cmin where cmin: "py_min ?ct = Inr cmin" using py_min_Inr [OF c] by blast
  obtain cmax where cmax: "py_max ?ct = Inr cmax" using py_max_Inr [OF c] by blast
  obtain pmin where pmin: "py_min ?pt = Inr pmin" using py_min_Inr [OF p] by blast
  obtain pmax where pmax: "py_max ?pt = Inr pmax" using py_max_Inr [OF p] by blast
  show ?thesis
    using cmin cmax pmin pmax
    by (simp add: MyEnv_init_def Let_def observation_display_def new_list_def)
qed

subsection \<open>Sequences of steps\<close>

lemma assemble_current_None:
  assumes "assemble_current obs ep h = (None, h')"
  shows "\<exists>c p. np_getitem (consumption_norm ep) (counter ep) = Inr c
             \<and> np_getitem (production_norm ep) (counter ep) = Inr p"
  using assms by (auto simp: assemble_current_def split: sum.splits)

lemma act_Inr_inversion:
  assumes "act action (e, h) = (Inr r, s')"
  shows "\<exists>ep td avail diff c p. episode e = Some ep \<and> true_demand ep = Inr td
           \<and> hydrogen_action action = Some (avail, diff)
           \<and> np_getitem (consumption_norm ep) (counter ep) = Inr c
           \<and> np_getitem (production_norm ep) (counter ep) = Inr p"
proof -
  obtain ep where ep: "episode e = Some ep"
    using assms by (cases "episode e") (simp_all add: act_def)
  obtain td where td: "true_demand ep = Inr td"
    using assms ep by (cases "true_demand ep") (simp_all add: act_def)
  obtain avail diff where hy: "hydrogen_action action = Some (avail, diff)"
    using assms ep td by (cases "hydrogen_action action") (auto simp: act_def)
  define ep1 where "ep1 = ep\<lparr>hydrogen_storage := hydrogen_storage ep + diff\<rparr>"
  obtain r1 h1 where bat:
    "battery (lastPonctualObservation e) (td + avail) (diff * (1 / 10)) h = (r1, h1)"
    by (cases "battery (lastPonctualObservation e) (td + avail) (diff * (1 / 10)) h")
  obtain r2 h2 where cur: "assemble_current (lastPonctualObservation e) ep1 h1 = (r2, h2)"
    by (cases "assemble_current (lastPonctualObservation e) ep1 h1")
  have "r2 = None"
    using assms ep td hy bat cur
    by (cases r1; cases r2) (simp_all add: act_def Let_def ep1_def)
  with cur assemble_current_None [of "lastPonctualObservation e" ep1 h1 h2]
  show ?thesis using ep td hy by (auto simp: ep1_def)
qed

lemma battery_level_bounds:
  assumes "0 \<le> l" "l \<le> 1"
  shows "0 \<le> battery_level l need \<and> battery_level l need \<le> 1"
proof -
  have "need > 0 \<Longrightarrow> l * 15 > need \<Longrightarrow> 0 \<le> l - need / 15" by simp
  moreover have "need > 0 \<Longrightarrow> l - need / 15 \<le> 1" using assms by simp
  moreover have "need < 0 \<Longrightarrow> 0 \<le> l - need / 15 * (9 / 10)" using assms by simp
  ultimately show ?thesis
    using assms
    by (auto simp: battery_level_def battery_size_def battery_eta_def inc_sizing_def min_def)
qed

lemma act_keeps_level_bounds:
  assumes ok: "obs_ok s" and lv: "shortTermLevel s = Some l" and b: "0 \<le> l" "l \<le> 1"
    and act: "act action s = (Inr r, s')"
  shows "obs_ok s' \<and> (\<exists>l'. shortTermLevel s' = Some l' \<and> 0 \<le> l' \<and> l' \<le> 1)"
proof -
  obtain e h where s: "s = (e, h)" by (cases s)
  from act_Inr_inversion [OF act [unfolded s]]
  obtain ep td avail diff c p where ep: "episode e = Some ep" and td: "true_demand ep = Inr td"
    and hy: "hydrogen_action action = Some (avail, diff)"
    and cn: "np_getitem (consumption_norm ep) (counter ep) = Inr c"
    and pn: "np_getitem (production_norm ep) (counter ep) = Inr p"
    by blast
  from act_success [OF ok [unfolded s] ep td hy cn pn refl] lv act s
  have "obs_ok s'" and "shortTermLevel s' = Some (battery_level l (td + avail))"
    by auto
  with battery_level_bounds [OF b] show ?thesis by blast
qed

lemma run_keeps_level_bounds:
  assumes "run as s = Some s'" "obs_ok s" "shortTermLevel s = Some l" "0 \<le> l" "l \<le> 1"
  shows "obs_ok s' \<and> (\<exists>l'. shortTermLevel s' = Some l' \<and> 0 \<le> l' \<and> l' \<le> 1)"
  using assms
proof (induction as arbitrary: s l)
  case Nil
  then show ?case by auto
next
  case (Cons a as)
  from Cons.prems(1) obtain r s1 where a: "act a s = (Inr r, s1)" and rest: "run as s1 = Some s'"
    by (auto split: prod.splits sum.splits)
  from act_keeps_level_bounds [OF Cons.prems(2,3,4,5) a]
  obtain l1 where "obs_ok s1" "shortTermLevel s1 = Some l1" "0 \<le> l1" "l1 \<le> 1" by blast
  with Cons.IH [OF rest] show ?case by blast
qed

text \<open>
  C2. After \<open>reset\<close> and after any sequence of \<open>act\<close> calls that return, the buffer
  level lies between 0 and 1.
\<close>

theorem buffer_level_stays_in_unit_interval:
  assumes "supported_flags e" and "reset mode (e, h) = (r, s0)" and "run as s0 = Some s"
  shows "\<exists>l. shortTermLevel s = Some l \<and> 0 \<le> l \<and> l \<le> 1"
proof -
  from reset_supported [OF assms(1), of mode h] assms(2)
  have "obs_ok s0" "shortTermLevel s0 = Some 1" by auto
  from run_keeps_level_bounds [OF assms(3) this] show ?thesis by simp
qed

theorem buffer_level_stays_in_unit_interval_witness:
  "supported_flags example_env
   \<and> reset (PyInt (- 1)) (example_env, example_heap)
       = (fst (reset (PyInt (- 1)) (example_env, example_heap)), example_state)
   \<and> map_option shortTermLevel (run [PyInt 1, PyInt 2, PyInt 0] example_state)
       = Some (Some (777 / 5000))"
proof -
  have s: "supported_flags example_env"
    and r: "reset (PyInt (- 1)) (example_env, example_heap)
       = (fst (reset (PyInt (- 1)) (example_env, example_heap)), example_state)"
    by (simp_all add: example_state_def supported_flags_def example_env_def)
  have run: "run [PyInt 1, PyInt 2, PyInt 0] example_state
          = Some (the (run [PyInt 1, PyInt 2, PyInt 0] example_state))"
    by (simp add: eval_defs)
  from buffer_level_stays_in_unit_interval [OF s r run] s r
  show ?thesis by (auto simp: eval_defs)
qed

lemma py_eq_int_unique: "py_eq_int a i \<Longrightarrow> py_eq_int a j \<Longrightarrow> i = j"
  by (cases a) (auto split: if_splits)

lemma hydrogen_action_diff:
  assumes "hydrogen_action action = Some (avail, diff)"
  shows "diff = hydrogen_max_power * ((if py_eq_int action 2 then 1 else 0)
                                       - (if py_eq_int action 0 then 1 else 0))"
proof -
  have "\<not> (py_eq_int action 2 \<and> py_eq_int action 0)"
    "\<not> (py_eq_int action 2 \<and> py_eq_int action 1)"
    "\<not> (py_eq_int action 1 \<and> py_eq_int action 0)"
    using py_eq_int_unique [of action 2 0] py_eq_int_unique [of action 2 1]
      py_eq_int_unique [of action 1 0] by auto
  with assms show ?thesis
    by (auto simp: hydrogen_action_def Let_def split: if_splits)
qed

lemma act_Inr_long_term:
  assumes "act action s = (Inr r, s')" and "longTermLevel s = Some x"
  shows "longTermLevel s' =
           Some (x + hydrogen_max_power * ((if py_eq_int action 2 then 1 else 0)
                                            - (if py_eq_int action 0 then 1 else 0)))"
proof -
  obtain e h where s: "s = (e, h)" by (cases s)
  note act = assms(1) [unfolded s]
  obtain ep where ep: "episode e = Some ep"
    using act by (cases "episode e") (simp_all add: act_def)
  obtain td where td: "true_demand ep = Inr td"
    using act ep by (cases "true_demand ep") (simp_all add: act_def)
  obtain avail diff where hy: "hydrogen_action action = Some (avail, diff)"
    using act ep td by (cases "hydrogen_action action") (auto simp: act_def)
  define ep1 where "ep1 = ep\<lparr>hydrogen_storage := hydrogen_storage ep + diff\<rparr>"
  define e1 where "e1 = e\<lparr>episode := Some ep1\<rparr>"
  obtain r1 h1 where bat:
    "battery (lastPonctualObservation e) (td + avail) (diff * (1 / 10)) h = (r1, h1)"
    by (cases "battery (lastPonctualObservation e) (td + avail) (diff * (1 / 10)) h")
  obtain r2 h2 where cur: "assemble_current (lastPonctualObservation e) ep1 h1 = (r2, h2)"
    by (cases "assemble_current (lastPonctualObservation e) ep1 h1")
  obtain r3 h3 where opt: "assemble_optional e1 ep1 h2 = (r3, h3)"
    by (cases "assemble_optional e1 ep1 h2")
  have "s' = (e1\<lparr>episode := Some (ep1\<lparr>counter := counter ep1 + 1\<rparr>)\<rparr>, h3)"
    using act ep td hy bat cur opt
    by (cases r1; cases r2; cases r3) (simp_all add: act_def Let_def ep1_def e1_def)
  then have "longTermLevel s' = Some (hydrogen_storage ep + diff)"
    by (simp add: longTermLevel_def ep1_def)
  moreover have "x = hydrogen_storage ep"
    using assms(2) ep by (simp add: longTermLevel_def s)
  ultimately show ?thesis using hydrogen_action_diff [OF hy] by simp
qed

lemma run_without_discharge:
  assumes "run as s = Some s'" and "longTermLevel s = Some x"
    and "\<forall>a \<in> set as. \<not> py_eq_int a 0"
  shows "\<exists>x'. longTermLevel s' = Some x' \<and> x \<le> x'"
  using assms
proof (induction as arbitrary: s x)
  case Nil
  then show ?case by simp
next
  case (Cons a as)
  from Cons.prems(1) obtain r s1 where a: "act a s = (Inr r, s1)" and rest: "run as s1 = Some s'"
    by (auto split: prod.splits sum.splits)
  define x1 where "x1 = x + hydrogen_max_power * ((if py_eq_int a 2 then 1 else 0)
                                                     - (if py_eq_int a 0 then 1 else 0))"
  have l1: "longTermLevel s1 = Some x1"
    using act_Inr_long_term [OF a Cons.prems(2)] by (simp add: x1_def)
  have "\<not> py_eq_int a 0" using Cons.prems(3) by simp
  then have up: "x \<le> x1"
    by (simp add: x1_def hydrogen_max_power_def inc_sizing_def)
  from Cons.IH [OF rest l1] Cons.prems(3)
  obtain x' where "longTermLevel s' = Some x'" "x1 \<le> x'" by auto
  with up show ?case by auto
qed

text \<open>
  C3, as the code has it. The long-term level has no floor. It is 0 after \<open>reset\<close>, and
  after \<open>reset\<close> and any sequence of \<open>act\<close> calls that return, none of them with the
  discharging action 0, it is at least 0. A discharging step can take it below 0.
\<close>

theorem long_term_level_nonnegative_without_discharge:
  assumes "reset mode (e, h) = (r, s0)" and "run as s0 = Some s"
    and "\<forall>a \<in> set as. \<not> py_eq_int a 0"
  shows "\<exists>x. longTermLevel s = Some x \<and> 0 \<le> x \<and> (as = [] \<longrightarrow> x = 0)"
proof -
  have l0: "longTermLevel s0 = Some 0"
    using reset_episode [of mode e h] assms(1)
    by (simp add: longTermLevel_def bind_series_def)
  from run_without_discharge [OF assms(2) l0 assms(3)]
  obtain x where x: "longTermLevel s = Some x" "0 \<le> x" by blast
  have "as = [] \<longrightarrow> x = 0" using assms(2) l0 x(1) by auto
  with x show ?thesis by blast
qed

theorem long_term_level_nonnegative_without_discharge_witness:
  "reset (PyInt (- 1)) (example_env, example_heap)
     = (fst (reset (PyInt (- 1)) (example_env, example_heap)), example_state)
   \<and> \<not> py_eq_int (PyInt 2) 0 \<and> \<not> py_eq_int (PyInt 1) 0
   \<and> map_option longTermLevel (run [PyInt 2, PyInt 1] example_state) = Some (Some (11 / 10))"
proof -
  have r: "reset (PyInt (- 1)) (example_env, example_heap)
       = (fst (reset (PyInt (- 1)) (example_env, example_heap)), example_state)"
    by (simp add: example_state_def)
  have run: "run [PyInt 2, PyInt 1] example_state
          = Some (the (run [PyInt 2, PyInt 1] example_state))"
    by (simp add: eval_defs)
  have nd: "\<forall>a \<in> set [PyInt 2, PyInt 1]. \<not> py_eq_int a 0" by simp
  from long_term_level_nonnegative_without_discharge [OF r run nd]
  obtain x where "longTermLevel (the (run [PyInt 2, PyInt 1] example_state)) = Some x" "0 \<le> x"
    by blast
  moreover have "map_option longTermLevel (run [PyInt 2, PyInt 1] example_state)
                   = Some (Some (11 / 10))"
    by (simp add: eval_defs)
  ultimately show ?thesis using r nd by simp
qed

text \<open>One discharging step after \<open>reset\<close> leaves the long-term level at -1.1.\<close>

theorem long_term_level_negative_after_discharge:
  "map_option longTermLevel
     (run [PyInt 0] (snd (reset (PyInt (- 1)) (example_env, example_heap))))
     = Some (Some (- (11 / 10)))
   \<and> \<not> (0::real) \<le> - (11 / 10)"
  by (simp add: eval_defs)

subsection \<open>observe\<close>

lemma observe_basic:
  assumes ob: "lastPonctualObservation e = Some (Ref a)" and a: "a < length h"
    and ha: "h ! a = [Num l, Ref b]" and b: "b < length h" and hb: "h ! b = [Num c, Num p]"
  shows "observe (Suc (Suc (Suc n))) (e, h) =
           (Inr (Ref (length h)), h @ [[Num l, Ref (Suc (length h))], [Num c, Num p]])"
proof -
  have ab: "a \<noteq> b" using ha hb by auto
  show ?thesis
    using a b ha hb ab
    by (simp add: observe_def ob append_item_def nth_append list_update_append Let_def)
qed

lemma observe_seasonal:
  assumes ob: "lastPonctualObservation e = Some (Ref a)" and a: "a < length h"
    and ha: "h ! a = [Num l, Ref b, Num s]" and b: "b < length h" and hb: "h ! b = [Num c, Num p]"
  shows "observe (Suc (Suc (Suc n))) (e, h) =
           (Inr (Ref (length h)), h @ [[Num l, Ref (Suc (length h)), Num s], [Num c, Num p]])"
proof -
  have ab: "a \<noteq> b" using ha hb by auto
  show ?thesis
    using a b ha hb ab
    by (simp add: observe_def ob append_item_def nth_append list_update_append Let_def)
qed

lemma observe_full:
  assumes ob: "lastPonctualObservation e = Some (Ref a)" and a: "a < length h"
    and ha: "h ! a = [Num l, Ref b, Num s, Ref f]" and b: "b < length h"
    and hb: "h ! b = [Num c, Num p]" and f: "f < length h" and hf: "h ! f = [Num u, Num v]"
    and bf: "b \<noteq> f"
  shows "observe (Suc (Suc (Suc n))) (e, h) =
           (Inr (Ref (length h)),
            h @ [[Num l, Ref (Suc (length h)), Num s, Ref (Suc (Suc (length h)))],
                 [Num c, Num p], [Num u, Num v]])"
proof -
  have ab: "a \<noteq> b" "a \<noteq> f" using ha hb hf by auto
  show ?thesis
    using a b f ha hb hf ab bf
    by (simp add: observe_def ob append_item_def nth_append list_update_append Let_def)
qed


lemma obs_ok_shapes:
  assumes "obs_ok (e, h)"
  obtains
    (basic) a l b c p where "lastPonctualObservation e = Some (Ref a)" "a < length h"
      "h ! a = [Num l, Ref b]" "b < length h" "h ! b = [Num c, Num p]"
  | (seasonal) a l b s c p where "lastPonctualObservation e = Some (Ref a)" "a < length h"
      "h ! a = [Num l, Ref b, Num s]" "b < length h" "h ! b = [Num c, Num p]"
  | (full) a l b s f c p u v where "lastPonctualObservation e = Some (Ref a)" "a < length h"
      "h ! a = [Num l, Ref b, Num s, Ref f]" "b < length h" "h ! b = [Num c, Num p]"
      "f < length h" "h ! f = [Num u, Num v]" "b \<noteq> f"
proof -
  from assms obtain a where ob: "lastPonctualObservation e = Some (Ref a)" and a: "a < length h"
    and sh: "obs_shape h (dist_equinox e) (pred e) (h ! a)"
    by (auto simp: obs_ok_def split: option.splits pyval.splits)
  from obs_shape_cases [OF sh] consider
      (1) l b where "h ! a = [Num l, Ref b]" "is_pair h b"
    | (2) l b s where "h ! a = [Num l, Ref b, Num s]" "is_pair h b"
    | (3) l b s f where "h ! a = [Num l, Ref b, Num s, Ref f]" "is_pair h b" "is_pair h f"
        "b \<noteq> f"
    by blast
  then show thesis
  proof cases
    case 1
    from 1(2) obtain c p where "b < length h" "h ! b = [Num c, Num p]" by (rule is_pairE)
    with ob a 1(1) show ?thesis by (rule basic)
  next
    case 2
    from 2(2) obtain c p where "b < length h" "h ! b = [Num c, Num p]" by (rule is_pairE)
    with ob a 2(1) show ?thesis by (rule seasonal)
  next
    case 3
    from 3(2) obtain c p where b: "b < length h" "h ! b = [Num c, Num p]" by (rule is_pairE)
    from 3(3) obtain u v where f: "f < length h" "h ! f = [Num u, Num v]" by (rule is_pairE)
    from ob a 3(1) b f 3(4) show ?thesis by (rule full)
  qed
qed

lemma observation_value_frame:
  assumes ok: "obs_ok (e, h)" and len: "length h \<le> length h'"
    and same: "\<And>x. x < length h \<Longrightarrow> h' ! x = h ! x"
  shows "observation_value (e, h') = observation_value (e, h)"
  using ok
proof (cases rule: obs_ok_shapes)
  case (basic a l b c p)
  then show ?thesis using len same [of a] same [of b]
    by (simp add: observation_value_def tree_of_2)
next
  case (seasonal a l b s c p)
  then show ?thesis using len same [of a] same [of b]
    by (simp add: observation_value_def tree_of_2)
next
  case (full a l b s f c p u v)
  then show ?thesis using len same [of a] same [of b] same [of f]
    by (simp add: observation_value_def tree_of_2)
qed

lemma observe_copy:
  assumes ok: "obs_ok (e, h)" and lim: "3 \<le> limit"
  shows "\<exists>hs t. observe limit (e, h) = (Inr (Ref (length h)), h @ hs)
           \<and> observation_value (e, h) = Some t
           \<and> (\<forall>hs'. tree_of 2 (h @ hs @ hs') (Ref (length h)) = Some t)
           \<and> set (addrs_of 2 (h @ hs) (Ref (length h))) \<subseteq> {length h..<length h + length hs}"
proof -
  from lim obtain n where n: "limit = Suc (Suc (Suc n))"
    by (metis Suc_le_D numeral_3_eq_3 Suc_le_mono)
  have a2: "\<And>h v. addrs_of 2 h v = addrs_of (Suc (Suc 0)) h v"
    by (simp add: numeral_2_eq_2)
  from ok show ?thesis
  proof (cases rule: obs_ok_shapes)
    case (basic a l b c p)
    let ?hs = "[[Num l, Ref (Suc (length h))], [Num c, Num p]]"
    have "observe limit (e, h) = (Inr (Ref (length h)), h @ ?hs)"
      unfolding n using basic by (rule observe_basic)
    moreover have "observation_value (e, h) = Some (Node [Leaf l, Node [Leaf c, Leaf p]])"
      using basic by (simp add: observation_value_def tree_of_2)
    moreover have "\<forall>hs'. tree_of 2 (h @ ?hs @ hs') (Ref (length h))
                      = Some (Node [Leaf l, Node [Leaf c, Leaf p]])"
      by (simp add: tree_of_2 nth_append)
    moreover have "set (addrs_of 2 (h @ ?hs) (Ref (length h)))
                     \<subseteq> {length h..<length h + length ?hs}"
      by (simp add: a2 nth_append)
    ultimately show ?thesis by blast
  next
    case (seasonal a l b s c p)
    let ?hs = "[[Num l, Ref (Suc (length h)), Num s], [Num c, Num p]]"
    have "observe limit (e, h) = (Inr (Ref (length h)), h @ ?hs)"
      unfolding n using seasonal by (rule observe_seasonal)
    moreover have "observation_value (e, h) = Some (Node [Leaf l, Node [Leaf c, Leaf p], Leaf s])"
      using seasonal by (simp add: observation_value_def tree_of_2)
    moreover have "\<forall>hs'. tree_of 2 (h @ ?hs @ hs') (Ref (length h))
                      = Some (Node [Leaf l, Node [Leaf c, Leaf p], Leaf s])"
      by (simp add: tree_of_2 nth_append)
    moreover have "set (addrs_of 2 (h @ ?hs) (Ref (length h)))
                     \<subseteq> {length h..<length h + length ?hs}"
      by (simp add: a2 nth_append)
    ultimately show ?thesis by blast
  next
    case (full a l b s f c p u v)
    let ?hs = "[[Num l, Ref (Suc (length h)), Num s, Ref (Suc (Suc (length h)))],
                [Num c, Num p], [Num u, Num v]]"
    have "observe limit (e, h) = (Inr (Ref (length h)), h @ ?hs)"
      unfolding n using full by (rule observe_full)
    moreover have "observation_value (e, h)
                     = Some (Node [Leaf l, Node [Leaf c, Leaf p], Leaf s, Node [Leaf u, Leaf v]])"
      using full by (simp add: observation_value_def tree_of_2)
    moreover have "\<forall>hs'. tree_of 2 (h @ ?hs @ hs') (Ref (length h))
                      = Some (Node [Leaf l, Node [Leaf c, Leaf p], Leaf s, Node [Leaf u, Leaf v]])"
      by (simp add: tree_of_2 nth_append)
    moreover have "set (addrs_of 2 (h @ ?hs) (Ref (length h)))
                     \<subseteq> {length h..<length h + length ?hs}"
      by (simp add: a2 nth_append)
    ultimately show ?thesis by blast
  qed
qed


text \<open>
  C9. Two calls of \<open>observe\<close> in a row return lists of equal value, the value of the
  observation the object holds; \<open>observe\<close> leaves that observation as it is; the list
  returned is made of new objects only, and overwriting any of them leaves the
  observation the object holds unchanged.
\<close>

theorem observe_returns_equal_copies:
  assumes ok: "obs_ok (e, h)" and lim: "3 \<le> limit"
  shows "\<exists>r1 h1 r2 h2 t.
           observe limit (e, h) = (Inr r1, h1) \<and> observe limit (e, h1) = (Inr r2, h2)
         \<and> observation_value (e, h) = Some t
         \<and> tree_of 2 h2 r1 = Some t \<and> tree_of 2 h2 r2 = Some t
         \<and> observation_value (e, h1) = Some t \<and> observation_value (e, h2) = Some t
         \<and> (\<forall>x \<in> set (addrs_of 2 h1 r1). length h \<le> x \<and> x < length h1)
         \<and> (\<forall>x \<in> set (addrs_of 2 h1 r1). \<forall>vs. observation_value (e, h1[x := vs]) = Some t)"
proof -
  from observe_copy [OF ok lim] obtain hs t where
    o1: "observe limit (e, h) = (Inr (Ref (length h)), h @ hs)"
    and t: "observation_value (e, h) = Some t"
    and c1: "\<And>hs'. tree_of 2 (h @ hs @ hs') (Ref (length h)) = Some t"
    and fresh: "set (addrs_of 2 (h @ hs) (Ref (length h))) \<subseteq> {length h..<length h + length hs}"
    by blast
  define h1 where "h1 = h @ hs"
  have ok1: "obs_ok (e, h1)" unfolding h1_def using ok by (rule obs_ok_extend)
  have t1: "observation_value (e, h1) = Some t"
    using observation_value_frame [OF ok, of h1] t by (simp add: nth_append h1_def)
  from observe_copy [OF ok1 lim] obtain hs2 t' where
    o2: "observe limit (e, h1) = (Inr (Ref (length h1)), h1 @ hs2)"
    and t': "observation_value (e, h1) = Some t'"
    and c2': "\<And>hs'. tree_of 2 (h1 @ hs2 @ hs') (Ref (length h1)) = Some t'"
    by blast
  have tt: "t' = t" using t1 t' by simp
  have c2: "tree_of 2 (h1 @ hs2) (Ref (length h1)) = Some t"
    using c2' [of "[]"] tt by simp
  have c12: "tree_of 2 (h1 @ hs2) (Ref (length h)) = Some t"
    using c1 [of hs2] by (simp add: h1_def)
  have t2: "observation_value (e, h1 @ hs2) = Some t"
    using observation_value_frame [OF ok, of "h1 @ hs2"] t by (simp add: nth_append h1_def)
  have fr: "\<forall>x \<in> set (addrs_of 2 h1 (Ref (length h))). length h \<le> x \<and> x < length h1"
    using fresh by (auto simp: h1_def)
  have upd: "\<forall>x \<in> set (addrs_of 2 h1 (Ref (length h))). \<forall>vs.
               observation_value (e, h1[x := vs]) = Some t"
  proof (intro ballI allI)
    fix x vs assume "x \<in> set (addrs_of 2 h1 (Ref (length h)))"
    with fr have x: "length h \<le> x" by blast
    have "observation_value (e, h1[x := vs]) = observation_value (e, h)"
      by (rule observation_value_frame [OF ok]) (use x in \<open>simp_all add: h1_def nth_append\<close>)
    with t show "observation_value (e, h1[x := vs]) = Some t" by simp
  qed
  have "observe limit (e, h) = (Inr (Ref (length h)), h1)
         \<and> observe limit (e, h1) = (Inr (Ref (length h1)), h1 @ hs2)
         \<and> observation_value (e, h) = Some t
         \<and> tree_of 2 (h1 @ hs2) (Ref (length h)) = Some t
         \<and> tree_of 2 (h1 @ hs2) (Ref (length h1)) = Some t
         \<and> observation_value (e, h1) = Some t \<and> observation_value (e, h1 @ hs2) = Some t
         \<and> (\<forall>x \<in> set (addrs_of 2 h1 (Ref (length h))). length h \<le> x \<and> x < length h1)
         \<and> (\<forall>x \<in> set (addrs_of 2 h1 (Ref (length h))). \<forall>vs.
               observation_value (e, h1[x := vs]) = Some t)"
    using o1 [folded h1_def] o2 t c12 c2 t1 t2 fr upd by (intro conjI)
  then show ?thesis by (intro exI)
qed

theorem observe_returns_equal_copies_witness:
  "obs_ok example_full_state \<and> (3::nat) \<le> 3
   \<and> observe 3 example_full_state =
       (Inr (Ref 3),
        snd example_full_state
          @ [[Num 1, Ref 4, Num 0, Ref 5], [Num 0, Num 0], [Num 0, Num 0]])
   \<and> observation_value
        (fst example_full_state,
         (snd example_full_state
            @ [[Num 1, Ref 4, Num 0, Ref 5], [Num 0, Num 0], [Num 0, Num 0]])
           [4 := [Num 7, Num 7]])
       = observation_value example_full_state"
proof -
  let ?h1 = "snd example_full_state
               @ [[Num 1, Ref 4, Num 0, Ref 5], [Num 0, Num 0], [Num 0, Num 0]]"
  have ok: "obs_ok (fst example_full_state, snd example_full_state)"
    by (simp add: eval_defs)
  have lim: "(3::nat) \<le> 3" by simp
  have o: "observe 3 (fst example_full_state, snd example_full_state) = (Inr (Ref 3), ?h1)"
    by (simp add: eval_defs)
  have ad: "4 \<in> set (addrs_of 2 ?h1 (Ref 3))"
    by (simp add: eval_defs)
  from observe_returns_equal_copies [OF ok lim] obtain r1 h1 t where
    1: "observe 3 (fst example_full_state, snd example_full_state) = (Inr r1, h1)"
    and 2: "observation_value (fst example_full_state, snd example_full_state) = Some t"
    and 3: "\<forall>x \<in> set (addrs_of 2 h1 r1). \<forall>vs.
              observation_value (fst example_full_state, h1[x := vs]) = Some t"
    by blast
  from 1 o have "r1 = Ref 3" "h1 = ?h1" by simp_all
  with 3 ad have "observation_value (fst example_full_state, ?h1[4 := [Num 7, Num 7]]) = Some t"
    by blast
  with 2 ok lim o show ?thesis by simp
qed

text \<open>
  The store does tell a copy from a shared reference: a write through the reference the
  object itself holds changes the observation.
\<close>

lemma write_through_own_reference_is_seen:
  "observation_value (fst example_full_state, (snd example_full_state)[0 := [Num 7, Num 7]])
     \<noteq> observation_value example_full_state"
  by (simp add: eval_defs tree_of_2)

end
